theory Spec2Isabelle
  imports Main "HOL-Library.Sublist"
begin

section \<open>Python values and exceptions\<close>

text \<open>
  The codecs of \<^verbatim>\<open>address_book_encoding.py\<close> take and return untyped Python objects.
  A contact collection is a list of dictionaries, a contact is a dictionary with one key
  (the name) whose value is a dictionary with the keys \<^verbatim>\<open>address\<close> and
  \<^verbatim>\<open>phone_number\<close>. A dictionary is an association list in insertion order, as
  \<^verbatim>\<open>dict.items()\<close> enumerates it. Strings are lists of characters; an Isabelle
  character is one byte, so the strings of the model are those of code points below 256.
  Floating point numbers are left out.
\<close>

datatype pyval =
    PNone
  | PBool bool
  | PInt int
  | PStr string
  | PList "pyval list"
  | PDict "(pyval \<times> pyval) list"

text \<open>
  An exception of the source is a value. \<open>LookupError\<close> carries its message, the only
  one a statement reads; \<open>SyntaxError\<close> stands for the parse errors of the libraries
  (\<^verbatim>\<open>XMLSyntaxError\<close>, \<^verbatim>\<open>JSONDecodeError\<close>, \<^verbatim>\<open>YAMLError\<close>). The last two
  constructors are no exceptions of Python. \<open>OutsideModel\<close> is the answer of a library
  model on a text whose value \<open>pyval\<close> does not have (a floating point number, a code
  point of 256 or more). \<open>OutOfFuel\<close> is the answer of the JSON scanner when its
  recursion bound is used up, which never happens (lemma \<open>json_loads_fuel\<close>).
\<close>

datatype error =
    TypeError
  | AttributeError
  | IndexError
  | LookupError string
  | SyntaxError
  | FileNotFoundError
  | OutsideModel
  | OutOfFuel

section \<open>Operations of the Python language and library\<close>

text \<open>\<^verbatim>\<open>xs[i]\<close> for a literal index \<open>i \<ge> 0\<close>, and \<^verbatim>\<open>xs[-1]\<close>.\<close>

definition index :: "'a list \<Rightarrow> nat \<Rightarrow> error + 'a" where
  "index xs i = (if i < length xs then Inr (xs ! i) else Inl IndexError)"

definition index_last :: "'a list \<Rightarrow> error + 'a" where
  "index_last xs = (if xs = [] then Inl IndexError else Inr (last xs))"

text \<open>\<^verbatim>\<open>len(obj)\<close>.\<close>

fun py_len :: "pyval \<Rightarrow> error + nat" where
  "py_len (PStr s) = Inr (length s)"
| "py_len (PList xs) = Inr (length xs)"
| "py_len (PDict kvs) = Inr (length kvs)"
| "py_len _ = Inl TypeError"

text \<open>
  \<^verbatim>\<open>for x in obj\<close>: a list yields its elements, a dictionary its keys, a string its
  characters; the other values are not iterable.
\<close>

fun py_iter :: "pyval \<Rightarrow> error + pyval list" where
  "py_iter (PList xs) = Inr xs"
| "py_iter (PDict kvs) = Inr (map fst kvs)"
| "py_iter (PStr s) = Inr (map (\<lambda>c. PStr [c]) s)"
| "py_iter _ = Inl TypeError"

text \<open>\<^verbatim>\<open>obj.items()\<close> and \<^verbatim>\<open>obj.get(key)\<close> exist on dictionaries only.\<close>

fun items :: "pyval \<Rightarrow> error + (pyval \<times> pyval) list" where
  "items (PDict kvs) = Inr kvs"
| "items _ = Inl AttributeError"

fun get :: "pyval \<Rightarrow> pyval \<Rightarrow> error + pyval" where
  "get (PDict kvs) k = Inr (case map_of kvs k of None \<Rightarrow> PNone | Some v \<Rightarrow> v)"
| "get _ k = Inl AttributeError"

text \<open>
  \<^verbatim>\<open>s.split(sep)\<close> for a non-empty separator: the occurrences of \<open>sep\<close> are found
  from the left and do not overlap; the result is never empty. Every call of the source
  passes a literal separator, so the \<^verbatim>\<open>ValueError\<close> of an empty one cannot arise.
\<close>

function split :: "string \<Rightarrow> string \<Rightarrow> string list" where
  "split sep [] = [[]]"
| "split sep (c # cs) =
     (if sep \<noteq> [] \<and> prefix sep (c # cs)
      then [] # split sep (drop (length sep) (c # cs))
      else (case split sep cs of [] \<Rightarrow> [[c]] | p # ps \<Rightarrow> (c # p) # ps))"
  by pat_completeness auto
termination
  by (relation "measure (\<lambda>(sep, s). length s)") auto

text \<open>
  \<^verbatim>\<open>str(n)\<close> for an integer: decimal digits, with a minus sign below zero.
\<close>

function digits :: "nat \<Rightarrow> string" where
  "digits n =
     (if n < 10 then [char_of (48 + n)]
      else digits (n div 10) @ [char_of (48 + n mod 10)])"
  by pat_completeness auto
termination
  by (relation "measure id") auto

declare digits.simps [simp del]

definition str_int :: "int \<Rightarrow> string" where
  "str_int i = (if i < 0 then ''-'' @ digits (nat (- i)) else digits (nat i))"

text \<open>
  \<^verbatim>\<open>repr(s)\<close> for a string: single quotes, unless the string holds a single quote
  and no double quote; the quote and the backslash are escaped, tab, line feed and
  carriage return are written \<^verbatim>\<open>\t\<close>, \<^verbatim>\<open>\n\<close>, \<^verbatim>\<open>\r\<close>, and the
  code points that are not printable (below 32, 127 to 160, 173) as \<^verbatim>\<open>\xhh\<close>.
\<close>

definition hex_digit :: "nat \<Rightarrow> char" where
  "hex_digit n = (if n < 10 then char_of (48 + n) else char_of (87 + n))"

definition repr_char :: "char \<Rightarrow> char \<Rightarrow> string" where
  "repr_char quote c =
     (let n = of_char c :: nat in
      if c = quote \<or> c = CHR 0x5C then [CHR 0x5C, c]
      else if c = CHR 0x09 then [CHR 0x5C, CHR ''t'']
      else if c = CHR 0x0A then [CHR 0x5C, CHR ''n'']
      else if c = CHR 0x0D then [CHR 0x5C, CHR ''r'']
      else if n < 32 \<or> (127 \<le> n \<and> n \<le> 160) \<or> n = 173
      then [CHR 0x5C, CHR ''x'', hex_digit (n div 16), hex_digit (n mod 16)]
      else [c])"

definition repr_str :: "string \<Rightarrow> string" where
  "repr_str s =
     (let quote = (if CHR 0x27 \<in> set s \<and> CHR 0x22 \<notin> set s then CHR 0x22 else CHR 0x27)
      in [quote] @ concat (map (repr_char quote) s) @ [quote])"

text \<open>\<^verbatim>\<open>sep.join(xs)\<close>.\<close>

fun join :: "string \<Rightarrow> string list \<Rightarrow> string" where
  "join sep [] = []"
| "join sep [x] = x"
| "join sep (x # y # ys) = x @ sep @ join sep (y # ys)"

text \<open>
  \<^verbatim>\<open>repr(obj)\<close>, and \<^verbatim>\<open>str(obj)\<close> as \<^verbatim>\<open>'{0}'.format(obj)\<close> writes it: a
  string is written as it is, every other value as its \<^verbatim>\<open>repr\<close>.
\<close>

fun repr :: "pyval \<Rightarrow> string" where
  "repr PNone = ''None''"
| "repr (PBool b) = (if b then ''True'' else ''False'')"
| "repr (PInt i) = str_int i"
| "repr (PStr s) = repr_str s"
| "repr (PList xs) = ''['' @ join '', '' (map repr xs) @ '']''"
| "repr (PDict kvs) =
     ''{'' @ join '', '' (map (\<lambda>kv. repr (fst kv) @ '': '' @ repr (snd kv)) kvs) @ ''}''"

fun str :: "pyval \<Rightarrow> string" where
  "str (PStr s) = s"
| "str v = repr v"

section \<open>The codec pair as \<^verbatim>\<open>codecs.encode\<close> and \<^verbatim>\<open>codecs.decode\<close> use it\<close>

text \<open>
  An encoder returns the text and a length, a decoder the object and a length;
  \<^verbatim>\<open>codecs.encode\<close> and \<^verbatim>\<open>codecs.decode\<close> keep the first component.
  \<open>roundtrip enc dec x\<close> is \<^verbatim>\<open>decode(encode(x))\<close> through one codec.
\<close>

type_synonym encoder = "pyval \<Rightarrow> error + string \<times> nat"
type_synonym decoder = "string \<Rightarrow> error + pyval \<times> nat"

definition roundtrip :: "encoder \<Rightarrow> decoder \<Rightarrow> pyval \<Rightarrow> error + pyval" where
  "roundtrip enc dec x =
     (case enc x of
        Inl e \<Rightarrow> Inl e
      | Inr (text, n) \<Rightarrow>
          (case dec text of Inl e \<Rightarrow> Inl e | Inr (obj, m) \<Rightarrow> Inr obj))"

text \<open>The canonical wire shape of one contact, as \<^verbatim>\<open>Contact.to_dict\<close> builds it.\<close>

definition contact :: "string \<Rightarrow> string \<Rightarrow> string \<Rightarrow> pyval" where
  "contact name address phone_number =
     PDict [(PStr name,
             PDict [(PStr ''address'', PStr address),
                    (PStr ''phone_number'', PStr phone_number)])]"

section \<open>The delimited text codec\<close>

text \<open>
  \<^verbatim>\<open>formatted_text_encode\<close>: three nested loops appending to \<^verbatim>\<open>formatted_text\<close>.
  \<^verbatim>\<open>key + '\n'\<close> and \<^verbatim>\<open>sub_key + ': ' + sub_value + '\n'\<close> raise
  \<^verbatim>\<open>TypeError\<close> unless every operand is a string.
\<close>

fun encode_sub_items :: "(pyval \<times> pyval) list \<Rightarrow> string \<Rightarrow> error + string" where
  "encode_sub_items [] formatted_text = Inr formatted_text"
| "encode_sub_items ((PStr sub_key, PStr sub_value) # rest) formatted_text =
     encode_sub_items rest (formatted_text @ sub_key @ '': '' @ sub_value @ ''\<newline>'')"
| "encode_sub_items (_ # rest) formatted_text = Inl TypeError"

fun encode_items :: "(pyval \<times> pyval) list \<Rightarrow> string \<Rightarrow> error + string" where
  "encode_items [] formatted_text = Inr formatted_text"
| "encode_items ((PStr key, v) # rest) formatted_text =
     (case items v of
        Inl e \<Rightarrow> Inl e
      | Inr sub \<Rightarrow>
          (case encode_sub_items sub (formatted_text @ ''\<newline>'' @ key @ ''\<newline>'') of
             Inl e \<Rightarrow> Inl e
           | Inr formatted_text' \<Rightarrow> encode_items rest formatted_text'))"
| "encode_items (_ # rest) formatted_text = Inl TypeError"

fun encode_contacts :: "pyval list \<Rightarrow> string \<Rightarrow> error + string" where
  "encode_contacts [] formatted_text = Inr formatted_text"
| "encode_contacts (c # rest) formatted_text =
     (case items c of
        Inl e \<Rightarrow> Inl e
      | Inr kvs \<Rightarrow>
          (case encode_items kvs formatted_text of
             Inl e \<Rightarrow> Inl e
           | Inr formatted_text' \<Rightarrow> encode_contacts rest formatted_text'))"

definition formatted_text_encode :: encoder where
  "formatted_text_encode contact_details =
     (case py_iter contact_details of
        Inl e \<Rightarrow> Inl e
      | Inr cs \<Rightarrow>
          (case encode_contacts cs [] of
             Inl e \<Rightarrow> Inl e
           | Inr formatted_text \<Rightarrow> Inr (formatted_text, length formatted_text)))"

text \<open>
  \<^verbatim>\<open>formatted_text_decode\<close>: the body of the loop reads the lines 1, 2 and 3 of a
  fragment (line 0 is skipped) and keeps what follows the last \<^verbatim>\<open>': '\<close> of lines 2
  and 3.
\<close>

definition decode_fragment :: "string \<Rightarrow> error + pyval" where
  "decode_fragment fragment =
     (let contact_data = split ''\<newline>'' fragment in
      case index contact_data 1 of
        Inl e \<Rightarrow> Inl e
      | Inr name \<Rightarrow>
     (case index contact_data 2 of
        Inl e \<Rightarrow> Inl e
      | Inr line2 \<Rightarrow>
     (case index_last (split '': '' line2) of
        Inl e \<Rightarrow> Inl e
      | Inr address \<Rightarrow>
     (case index contact_data 3 of
        Inl e \<Rightarrow> Inl e
      | Inr line3 \<Rightarrow>
     (case index_last (split '': '' line3) of
        Inl e \<Rightarrow> Inl e
      | Inr phone_number \<Rightarrow> Inr (contact name address phone_number))))))"

fun decode_fragments :: "string list \<Rightarrow> pyval list \<Rightarrow> error + pyval list" where
  "decode_fragments [] contacts = Inr contacts"
| "decode_fragments (fragment # rest) contacts =
     (if fragment = [] then decode_fragments rest contacts
      else (case decode_fragment fragment of
              Inl e \<Rightarrow> Inl e
            | Inr contact_dict \<Rightarrow> decode_fragments rest (contacts @ [contact_dict])))"

definition formatted_text_decode :: decoder where
  "formatted_text_decode formatted_text_str =
     (case decode_fragments (split ''\<newline>\<newline>'' formatted_text_str) [] of
        Inl e \<Rightarrow> Inl e
      | Inr contacts \<Rightarrow> Inr (PList contacts, length contacts))"

text \<open>
  \<open>no_pair a b s\<close>: the character \<open>a\<close> is nowhere in \<open>s\<close> followed by \<open>b\<close>; so
  the separator made of \<open>a\<close> and \<open>b\<close> does not occur in \<open>s\<close>.
\<close>

fun no_pair :: "char \<Rightarrow> char \<Rightarrow> string \<Rightarrow> bool" where
  "no_pair a b (c # d # cs) = (\<not> (c = a \<and> d = b) \<and> no_pair a b (d # cs))"
| "no_pair a b _ = True"

section \<open>The HTML table codec\<close>

subsection \<open>The element tree of \<^verbatim>\<open>lxml\<close>\<close>

text \<open>
  An element has a tag, the text before its first child (the attribute \<^verbatim>\<open>.text\<close>,
  here \<open>etext\<close>, \<^verbatim>\<open>None\<close> when there is none) and its children.
  \<^verbatim>\<open>e.findall('.//tag')\<close> lists the descendants of \<open>e\<close> with that tag, in document
  order, \<open>e\<close> itself excluded.
\<close>

datatype element = Element (tag: string) (etext: "string option") (children: "element list")

fun descendants :: "element \<Rightarrow> element list" where
  "descendants (Element t x cs) = concat (map (\<lambda>c. c # descendants c) cs)"

definition findall :: "string \<Rightarrow> element \<Rightarrow> element list" where
  "findall t e = filter (\<lambda>d. tag d = t) (descendants e)"

text \<open>\<^verbatim>\<open>cell.text\<close> as a Python value.\<close>

definition cell_text :: "element \<Rightarrow> pyval" where
  "cell_text cell = (case etext cell of None \<Rightarrow> PNone | Some s \<Rightarrow> PStr s)"

subsection \<open>A model of the HTML parser on the markup the encoder writes\<close>

text \<open>
  \<^verbatim>\<open>lxml.etree.parse(io.StringIO(s), lxml.etree.HTMLParser())\<close> is library code. The
  decoder takes the parser as a parameter, and the statements about the decoder hold for
  every parser. \<open>lxml_parse\<close> below is a model of the parser for the documents that
  \<^verbatim>\<open>html_table_encode\<close> writes: tags without attributes, every start tag with its end
  tag, and text between the tags that holds neither \<^verbatim>\<open><\<close> nor \<^verbatim>\<open>&\<close>. It is used
  to run the decoder on such documents. On other documents (character references,
  attributes, unbalanced tags, no markup at all) the model is not meant to be exact. The
  model keeps what the decoder reads: the rows, their cells and the text of the cells.
  The \<^verbatim>\<open>body\<close> element that the parser adds around the content is left out, and the
  text of the elements other than cells is not meant to be exact either. An element
  with nothing between its tags has the text \<^verbatim>\<open>None\<close>. The empty document is
  rejected.
\<close>

datatype token = StartTag string | EndTag string | Chars string

datatype mode = InText | InTag

definition text_token :: "string \<Rightarrow> token list" where
  "text_token acc = (if acc = [] then [] else [Chars (rev acc)])"

definition tag_token :: "string \<Rightarrow> token" where
  "tag_token acc =
     (case rev acc of
        c # name \<Rightarrow> if c = CHR ''/'' then EndTag name else StartTag (c # name)
      | [] \<Rightarrow> StartTag [])"

fun tokenize :: "mode \<Rightarrow> string \<Rightarrow> string \<Rightarrow> token list" where
  "tokenize InText acc [] = text_token acc"
| "tokenize InTag acc [] = []"
| "tokenize InText acc (c # cs) =
     (if c = CHR ''<'' then text_token acc @ tokenize InTag [] cs
      else tokenize InText (c # acc) cs)"
| "tokenize InTag acc (c # cs) =
     (if c = CHR ''>'' then tag_token acc # tokenize InText [] cs
      else tokenize InTag (c # acc) cs)"

text \<open>
  The open elements are a stack of frames; the frame on top is the element being read.
  Text is the \<^verbatim>\<open>.text\<close> of the open element while it has no child (afterwards it is
  the tail of a child, which the decoder never reads).
\<close>

record frame =
  frame_tag :: string
  frame_text :: "string option"
  frame_children :: "element list"

definition close_frame :: "frame \<Rightarrow> element" where
  "close_frame f = Element (frame_tag f) (frame_text f) (frame_children f)"

definition add_child :: "frame \<Rightarrow> element \<Rightarrow> frame" where
  "add_child f e = f\<lparr>frame_children := frame_children f @ [e]\<rparr>"

definition add_text :: "frame \<Rightarrow> string \<Rightarrow> frame" where
  "add_text f s =
     (if frame_children f = []
      then f\<lparr>frame_text := Some ((case frame_text f of None \<Rightarrow> [] | Some t \<Rightarrow> t) @ s)\<rparr>
      else f)"

fun build :: "token list \<Rightarrow> frame \<Rightarrow> frame list \<Rightarrow> element" where
  "build [] cur [] = close_frame cur"
| "build [] cur (parent # stack) = build [] (add_child parent (close_frame cur)) stack"
| "build (Chars s # ts) cur stack = build ts (add_text cur s) stack"
| "build (StartTag t # ts) cur stack =
     build ts \<lparr>frame_tag = t, frame_text = None, frame_children = []\<rparr> (cur # stack)"
| "build (EndTag t # ts) cur [] = build ts cur []"
| "build (EndTag t # ts) cur (parent # stack) =
     build ts (add_child parent (close_frame cur)) stack"

definition lxml_parse :: "string \<Rightarrow> error + element" where
  "lxml_parse s =
     (case tokenize InText [] s of
        [] \<Rightarrow> Inl SyntaxError
      | ts \<Rightarrow> Inr (build ts \<lparr>frame_tag = ''html'', frame_text = None, frame_children = []\<rparr> []))"

subsection \<open>\<^verbatim>\<open>html_table_encode\<close> and \<^verbatim>\<open>html_table_decode\<close>\<close>

definition html_table_header :: string where
  "html_table_header =
     ''\<newline>    <table>\<newline>''
     @ ''    <style>table, th, td {border: 1px solid black; border-collapse: collapse; padding: 10px}</style>\<newline>''
     @ ''    <tr><th>Name</th><th>Address</th><th>Phone Number</th></tr>\<newline>''
     @ ''    ''"

text \<open>
  \<^verbatim>\<open>'<tr><td>{0}</td><td>{1}</td><td>{2}</td></tr>'.format(name, address, phone_number)\<close>
\<close>

definition table_row :: "pyval \<Rightarrow> pyval \<Rightarrow> pyval \<Rightarrow> string" where
  "table_row name address phone_number =
     ''<tr><td>'' @ str name @ ''</td><td>'' @ str address @ ''</td><td>''
     @ str phone_number @ ''</td></tr>''"

fun html_items :: "(pyval \<times> pyval) list \<Rightarrow> string \<Rightarrow> error + string" where
  "html_items [] html_table = Inr html_table"
| "html_items ((name, v) # rest) html_table =
     (case get v (PStr ''address'') of
        Inl e \<Rightarrow> Inl e
      | Inr address \<Rightarrow>
          (case get v (PStr ''phone_number'') of
             Inl e \<Rightarrow> Inl e
           | Inr phone_number \<Rightarrow>
               html_items rest (html_table @ table_row name address phone_number)))"

fun html_contacts :: "pyval list \<Rightarrow> string \<Rightarrow> error + string" where
  "html_contacts [] html_table = Inr html_table"
| "html_contacts (c # rest) html_table =
     (case items c of
        Inl e \<Rightarrow> Inl e
      | Inr kvs \<Rightarrow>
          (case html_items kvs html_table of
             Inl e \<Rightarrow> Inl e
           | Inr html_table' \<Rightarrow> html_contacts rest html_table'))"

definition html_table_encode :: encoder where
  "html_table_encode contact_details =
     (case py_iter contact_details of
        Inl e \<Rightarrow> Inl e
      | Inr cs \<Rightarrow>
          (case html_contacts cs html_table_header of
             Inl e \<Rightarrow> Inl e
           | Inr html_table \<Rightarrow>
               Inr (html_table @ ''</table>'', length (html_table @ ''</table>''))))"

text \<open>
  The loop of \<^verbatim>\<open>html_table_decode\<close> over the rows: a row with no \<^verbatim>\<open>td\<close> is
  skipped, the cells 0, 1 and 2 of any other row are read.
\<close>

definition row_contact :: "element \<Rightarrow> element \<Rightarrow> element \<Rightarrow> pyval" where
  "row_contact c0 c1 c2 =
     PDict [(cell_text c0,
             PDict [(PStr ''address'', cell_text c1),
                    (PStr ''phone_number'', cell_text c2)])]"

fun decode_rows :: "element list \<Rightarrow> pyval list \<Rightarrow> error + pyval list" where
  "decode_rows [] contacts = Inr contacts"
| "decode_rows (row # table_rows) contacts =
     (let row_values = findall ''td'' row in
      if row_values = [] then decode_rows table_rows contacts
      else
        (case index row_values 0 of
           Inl e \<Rightarrow> Inl e
         | Inr c0 \<Rightarrow>
        (case index row_values 1 of
           Inl e \<Rightarrow> Inl e
         | Inr c1 \<Rightarrow>
        (case index row_values 2 of
           Inl e \<Rightarrow> Inl e
         | Inr c2 \<Rightarrow> decode_rows table_rows (contacts @ [row_contact c0 c1 c2])))))"

definition html_table_decode :: "(string \<Rightarrow> error + element) \<Rightarrow> decoder" where
  "html_table_decode parse html_table_str =
     (case parse html_table_str of
        Inl e \<Rightarrow> Inl e
      | Inr tree \<Rightarrow>
          (case decode_rows (findall ''tr'' tree) [] of
             Inl e \<Rightarrow> Inl e
           | Inr contacts \<Rightarrow> Inr (PList contacts, length contacts)))"


subsection \<open>The documents of the encoder\<close>

text \<open>
  For the proofs about the documents that the encoder writes: the three fields of a
  contact, a field that the markup carries (not empty, without \<^verbatim>\<open><\<close> and
  \<^verbatim>\<open>&\<close>), and the text, the tokens and the element of a row and of the header.
\<close>

definition html_safe :: "string \<Rightarrow> bool" where
  "html_safe s = (s \<noteq> [] \<and> CHR ''<'' \<notin> set s \<and> CHR ''&'' \<notin> set s)"

type_synonym fields = "string \<times> string \<times> string"

fun fields_contact :: "fields \<Rightarrow> pyval" where
  "fields_contact (n, a, p) = contact n a p"

fun fields_safe :: "fields \<Rightarrow> bool" where
  "fields_safe (n, a, p) = (html_safe n \<and> html_safe a \<and> html_safe p)"

fun row_text :: "fields \<Rightarrow> string" where
  "row_text (n, a, p) = table_row (PStr n) (PStr a) (PStr p)"

fun row_tokens :: "fields \<Rightarrow> token list" where
  "row_tokens (n, a, p) =
     [StartTag ''tr'', StartTag ''td'', Chars n, EndTag ''td'',
      StartTag ''td'', Chars a, EndTag ''td'',
      StartTag ''td'', Chars p, EndTag ''td'', EndTag ''tr'']"

fun row_element :: "fields \<Rightarrow> element" where
  "row_element (n, a, p) =
     Element ''tr'' None
       [Element ''td'' (Some n) [], Element ''td'' (Some a) [], Element ''td'' (Some p) []]"

definition header_tokens :: "token list" where
  "header_tokens =
     [Chars ''\<newline>    '', StartTag ''table'', Chars ''\<newline>    '', StartTag ''style'',
      Chars ''table, th, td {border: 1px solid black; border-collapse: collapse; padding: 10px}'',
      EndTag ''style'', Chars ''\<newline>    '', StartTag ''tr'',
      StartTag ''th'', Chars ''Name'', EndTag ''th'',
      StartTag ''th'', Chars ''Address'', EndTag ''th'',
      StartTag ''th'', Chars ''Phone Number'', EndTag ''th'',
      EndTag ''tr'', Chars ''\<newline>    '']"

definition header_row :: element where
  "header_row = Element ''tr'' None
     [Element ''th'' (Some ''Name'') [], Element ''th'' (Some ''Address'') [],
      Element ''th'' (Some ''Phone Number'') []]"

definition style_element :: element where
  "style_element = Element ''style''
     (Some ''table, th, td {border: 1px solid black; border-collapse: collapse; padding: 10px}'') []"

section \<open>The JSON and YAML codecs\<close>

text \<open>
  Both codecs hand the object to a library function and pair the result with a length.
  The library functions are parameters: \<open>dumps\<close> and \<open>loads\<close> for
  \<^verbatim>\<open>json.dumps\<close> and \<^verbatim>\<open>json.loads\<close>, \<open>dump\<close> and \<open>safe_load\<close> for
  \<^verbatim>\<open>yaml.dump\<close> and \<^verbatim>\<open>yaml.safe_load\<close>. The tuple is built from left to right:
  the library call comes before \<^verbatim>\<open>len\<close>.
\<close>

definition json_encode :: "(pyval \<Rightarrow> error + string) \<Rightarrow> encoder" where
  "json_encode dumps obj =
     (case dumps obj of
        Inl e \<Rightarrow> Inl e
      | Inr json_string \<Rightarrow>
          (case py_len obj of Inl e \<Rightarrow> Inl e | Inr n \<Rightarrow> Inr (json_string, n)))"

definition json_decode :: "(string \<Rightarrow> error + pyval) \<Rightarrow> decoder" where
  "json_decode loads json_string =
     (case loads json_string of
        Inl e \<Rightarrow> Inl e
      | Inr obj \<Rightarrow> Inr (obj, length json_string))"

definition yaml_encode :: "(pyval \<Rightarrow> error + string) \<Rightarrow> encoder" where
  "yaml_encode dump obj =
     (case dump obj of
        Inl e \<Rightarrow> Inl e
      | Inr yaml_string \<Rightarrow>
          (case py_len obj of Inl e \<Rightarrow> Inl e | Inr n \<Rightarrow> Inr (yaml_string, n)))"

definition yaml_decode :: "(string \<Rightarrow> error + pyval) \<Rightarrow> decoder" where
  "yaml_decode safe_load yaml_string =
     (case safe_load yaml_string of
        Inl e \<Rightarrow> Inl e
      | Inr obj \<Rightarrow> Inr (obj, length yaml_string))"

section \<open>The codec registry\<close>

text \<open>
  A \<^verbatim>\<open>codecs.CodecInfo\<close> holds references to two functions of the module and a name.
  A reference is a constant of an enumeration; \<open>call_encode\<close> and \<open>call_decode\<close>
  run the function it refers to, with the library functions at hand.
\<close>

datatype encode_function = Json_encode | Yaml_encode | Html_table_encode | Formatted_text_encode

datatype decode_function = Json_decode | Yaml_decode | Html_table_decode | Formatted_text_decode

record CodecInfo =
  encode :: encode_function
  decode :: decode_function
  name :: string




text \<open>
  The four search functions. The last two have no \<^verbatim>\<open>return None\<close>; a Python
  function that ends without a \<^verbatim>\<open>return\<close> returns \<^verbatim>\<open>None\<close> all the same.
\<close>

definition json_search :: "string \<Rightarrow> CodecInfo option" where
  "json_search encoding =
     (if encoding = ''json''
      then Some \<lparr>encode = Json_encode, decode = Json_decode, name = ''json''\<rparr>
      else None)"

definition yaml_search :: "string \<Rightarrow> CodecInfo option" where
  "yaml_search encoding =
     (if encoding = ''yaml''
      then Some \<lparr>encode = Yaml_encode, decode = Yaml_decode, name = ''yaml''\<rparr>
      else None)"

definition html_table_search :: "string \<Rightarrow> CodecInfo option" where
  "html_table_search encoding =
     (if encoding = ''html_table''
      then Some \<lparr>encode = Html_table_encode, decode = Html_table_decode,
                 name = ''html_table''\<rparr>
      else None)"

definition formatted_text_search :: "string \<Rightarrow> CodecInfo option" where
  "formatted_text_search encoding =
     (if encoding = ''formatted_text''
      then Some \<lparr>encode = Formatted_text_encode, decode = Formatted_text_decode,
                 name = ''formatted_text''\<rparr>
      else None)"

text \<open>
  The registry is the search path of the standard module \<^verbatim>\<open>codecs\<close>: the list of the
  registered search functions. \<^verbatim>\<open>codecs.register\<close> appends to it, whatever it holds
  already. \<^verbatim>\<open>codecs.lookup\<close> normalises the name (how depends on the version of the
  interpreter, so \<open>normalizestring\<close> is a parameter), asks the search functions in order and
  returns the first result that is not \<^verbatim>\<open>None\<close>; when there is none it raises
  \<^verbatim>\<open>LookupError('unknown encoding: ' + encoding)\<close>, with the name as it was given.
  The interpreter also remembers the results of successful lookups; since the search
  path only grows and the search functions are pure, the remembered result is the one
  the scan below finds.
\<close>

type_synonym registry = "(string \<Rightarrow> CodecInfo option) list"

definition codecs_register :: "registry \<Rightarrow> (string \<Rightarrow> CodecInfo option) \<Rightarrow> registry" where
  "codecs_register search_path search_function = search_path @ [search_function]"

fun first_match :: "registry \<Rightarrow> string \<Rightarrow> CodecInfo option" where
  "first_match [] encoding = None"
| "first_match (search_function # rest) encoding =
     (case search_function encoding of
        Some info \<Rightarrow> Some info
      | None \<Rightarrow> first_match rest encoding)"

definition codecs_lookup :: "(string \<Rightarrow> string) \<Rightarrow> registry \<Rightarrow> string \<Rightarrow> error + CodecInfo" where
  "codecs_lookup normalizestring search_path encoding =
     (case first_match search_path (normalizestring encoding) of
        Some info \<Rightarrow> Inr info
      | None \<Rightarrow> Inl (LookupError (''unknown encoding: '' @ encoding)))"

definition register_codecs :: "registry \<Rightarrow> registry" where
  "register_codecs search_path =
     codecs_register
       (codecs_register
          (codecs_register
             (codecs_register search_path json_search)
             yaml_search)
          html_table_search)
       formatted_text_search"






section \<open>A model of the JSON library\<close>

subsection \<open>\<^verbatim>\<open>json.dumps\<close>\<close>

text \<open>
  \<^verbatim>\<open>json.dumps(obj)\<close> with its default settings. A string is written between double
  quotes; the quote and the backslash are escaped, the control characters that have a
  short escape are written with it, and every other character outside the printable
  ASCII range is written as \<^verbatim>\<open>\u00hh\<close>. The items of a list and of a dictionary are
  separated by \<^verbatim>\<open>', '\<close>, a key and its value by \<^verbatim>\<open>': '\<close>. A key that is a
  string, a number, a boolean or \<^verbatim>\<open>None\<close> is written as a string; any other key is
  a \<^verbatim>\<open>TypeError\<close>.
\<close>

definition json_escape_char :: "char \<Rightarrow> string" where
  "json_escape_char c =
     (let n = of_char c :: nat in
      if c = CHR 0x22 then [CHR 0x5C, CHR 0x22]
      else if c = CHR 0x5C then [CHR 0x5C, CHR 0x5C]
      else if c = CHR 0x0A then [CHR 0x5C, CHR ''n'']
      else if c = CHR 0x0D then [CHR 0x5C, CHR ''r'']
      else if c = CHR 0x09 then [CHR 0x5C, CHR ''t'']
      else if c = CHR 0x0C then [CHR 0x5C, CHR ''f'']
      else if c = CHR 0x08 then [CHR 0x5C, CHR ''b'']
      else if n < 32 \<or> 126 < n
      then [CHR 0x5C, CHR ''u'', CHR ''0'', CHR ''0'', hex_digit (n div 16), hex_digit (n mod 16)]
      else [c])"

definition json_string :: "string \<Rightarrow> string" where
  "json_string s = [CHR 0x22] @ concat (map json_escape_char s) @ [CHR 0x22]"

fun json_key :: "pyval \<Rightarrow> error + string" where
  "json_key (PStr s) = Inr s"
| "json_key (PInt i) = Inr (str_int i)"
| "json_key (PBool b) = Inr (if b then ''true'' else ''false'')"
| "json_key PNone = Inr ''null''"
| "json_key _ = Inl TypeError"

function json_dumps :: "pyval \<Rightarrow> error + string"
  and dumps_list :: "pyval list \<Rightarrow> error + string list"
  and dumps_items :: "(pyval \<times> pyval) list \<Rightarrow> error + string list" where
  "json_dumps PNone = Inr ''null''"
| "json_dumps (PBool b) = Inr (if b then ''true'' else ''false'')"
| "json_dumps (PInt i) = Inr (str_int i)"
| "json_dumps (PStr s) = Inr (json_string s)"
| "json_dumps (PList xs) =
     (case dumps_list xs of
        Inl e \<Rightarrow> Inl e
      | Inr chunks \<Rightarrow> Inr (''['' @ join '', '' chunks @ '']''))"
| "json_dumps (PDict kvs) =
     (case dumps_items kvs of
        Inl e \<Rightarrow> Inl e
      | Inr chunks \<Rightarrow> Inr (''{'' @ join '', '' chunks @ ''}''))"
| "dumps_list [] = Inr []"
| "dumps_list (x # xs) =
     (case json_dumps x of
        Inl e \<Rightarrow> Inl e
      | Inr chunk \<Rightarrow>
          (case dumps_list xs of Inl e \<Rightarrow> Inl e | Inr chunks \<Rightarrow> Inr (chunk # chunks)))"
| "dumps_items [] = Inr []"
| "dumps_items ((k, v) # kvs) =
     (case json_key k of
        Inl e \<Rightarrow> Inl e
      | Inr key \<Rightarrow>
          (case json_dumps v of
             Inl e \<Rightarrow> Inl e
           | Inr chunk \<Rightarrow>
               (case dumps_items kvs of
                  Inl e \<Rightarrow> Inl e
                | Inr chunks \<Rightarrow> Inr ((json_string key @ '': '' @ chunk) # chunks))))"
  by pat_completeness auto
termination
  by (relation "measure (\<lambda>a. case a of
        Inl v \<Rightarrow> size v
      | Inr (Inl xs) \<Rightarrow> size_list size xs
      | Inr (Inr kvs) \<Rightarrow> size_list (size_prod size size) kvs)") auto

subsection \<open>\<^verbatim>\<open>json.loads\<close>\<close>

text \<open>
  The scanner of \<^verbatim>\<open>json.decoder\<close>. White space is a space, a tab, a line feed or a
  carriage return. In a string, a control character is an error, and so is a backslash
  followed by anything but one of \<^verbatim>\<open>"\/bfnrt\<close> or \<^verbatim>\<open>u\<close> and four hexadecimal
  digits. A code point of 256 or more, a number with a fraction or an exponent and the
  names \<^verbatim>\<open>NaN\<close> and \<^verbatim>\<open>Infinity\<close> have no value in \<open>pyval\<close>: for them the
  model answers \<open>OutsideModel\<close>.
\<close>

definition is_ws :: "char \<Rightarrow> bool" where
  "is_ws c = (c = CHR '' '' \<or> c = CHR 0x09 \<or> c = CHR 0x0A \<or> c = CHR 0x0D)"

definition skip_ws :: "string \<Rightarrow> string" where
  "skip_ws s = dropWhile is_ws s"

definition hex_val :: "char \<Rightarrow> nat option" where
  "hex_val c =
     (let n = of_char c :: nat in
      if 48 \<le> n \<and> n \<le> 57 then Some (n - 48)
      else if 97 \<le> n \<and> n \<le> 102 then Some (n - 87)
      else if 65 \<le> n \<and> n \<le> 70 then Some (n - 55)
      else None)"

definition backslash :: "char \<Rightarrow> char option" where
  "backslash e =
     (if e = CHR 0x22 then Some (CHR 0x22)
      else if e = CHR 0x5C then Some (CHR 0x5C)
      else if e = CHR ''/'' then Some (CHR ''/'')
      else if e = CHR ''b'' then Some (CHR 0x08)
      else if e = CHR ''f'' then Some (CHR 0x0C)
      else if e = CHR ''n'' then Some (CHR 0x0A)
      else if e = CHR ''r'' then Some (CHR 0x0D)
      else if e = CHR ''t'' then Some (CHR 0x09)
      else None)"

definition hex4 :: "char \<Rightarrow> char \<Rightarrow> char \<Rightarrow> char \<Rightarrow> nat option" where
  "hex4 h1 h2 h3 h4 =
     (case (hex_val h1, hex_val h2, hex_val h3, hex_val h4) of
        (Some d1, Some d2, Some d3, Some d4) \<Rightarrow> Some (((d1 * 16 + d2) * 16 + d3) * 16 + d4)
      | _ \<Rightarrow> None)"

fun scanstring :: "string \<Rightarrow> error + string \<times> string"
  and scan_escape :: "string \<Rightarrow> error + string \<times> string"
  and scan_unicode :: "string \<Rightarrow> error + string \<times> string" where
  "scanstring [] = Inl SyntaxError"
| "scanstring (c # cs) =
     (if c = CHR 0x22 then Inr ([], cs)
      else if c = CHR 0x5C then scan_escape cs
      else if (of_char c :: nat) < 32 then Inl SyntaxError
      else (case scanstring cs of Inl e \<Rightarrow> Inl e | Inr (s, rest) \<Rightarrow> Inr (c # s, rest)))"
| "scan_escape [] = Inl SyntaxError"
| "scan_escape (e # cs) =
     (if e = CHR ''u'' then scan_unicode cs
      else (case backslash e of
              None \<Rightarrow> Inl SyntaxError
            | Some c \<Rightarrow>
                (case scanstring cs of Inl e \<Rightarrow> Inl e | Inr (s, rest) \<Rightarrow> Inr (c # s, rest))))"
| "scan_unicode (h1 # h2 # h3 # h4 # cs) =
     (case hex4 h1 h2 h3 h4 of
        None \<Rightarrow> Inl SyntaxError
      | Some uni \<Rightarrow>
          if uni < 256
          then (case scanstring cs of
                  Inl e \<Rightarrow> Inl e
                | Inr (s, rest) \<Rightarrow> Inr (char_of uni # s, rest))
          else Inl OutsideModel)"
| "scan_unicode _ = Inl SyntaxError"

text \<open>
  A number is \<^verbatim>\<open>-?(0|[1-9][0-9]*)\<close>, followed or not by a fraction or an exponent; the
  match is the longest one at the start of the text.
\<close>

definition is_digit :: "char \<Rightarrow> bool" where
  "is_digit c = (48 \<le> (of_char c :: nat) \<and> (of_char c :: nat) \<le> 57)"

definition nat_of_digits :: "string \<Rightarrow> nat" where
  "nat_of_digits ds = foldl (\<lambda>a c. 10 * a + (of_char c - 48)) 0 ds"

definition starts_with_digit :: "string \<Rightarrow> bool" where
  "starts_with_digit s = (case s of [] \<Rightarrow> False | c # cs \<Rightarrow> is_digit c)"

definition float_tail :: "string \<Rightarrow> bool" where
  "float_tail s =
     (case s of
        [] \<Rightarrow> False
      | c # cs \<Rightarrow>
          if c = CHR ''.'' then starts_with_digit cs
          else if c = CHR ''e'' \<or> c = CHR ''E''
          then (case cs of
                  [] \<Rightarrow> False
                | d # ds \<Rightarrow>
                    if d = CHR ''+'' \<or> d = CHR ''-'' then starts_with_digit ds else is_digit d)
          else False)"

definition scan_number :: "string \<Rightarrow> (error + pyval \<times> string) option" where
  "scan_number s =
     (let negative = (s \<noteq> [] \<and> hd s = CHR ''-'');
          s1 = (if negative then tl s else s)
      in if \<not> starts_with_digit s1 then None
         else
           (let ds = (if hd s1 = CHR ''0'' then ''0'' else takeWhile is_digit s1);
                rest = drop (length ds) s1
            in if float_tail rest then Some (Inl OutsideModel)
               else Some (Inr (PInt (if negative then - int (nat_of_digits ds)
                                     else int (nat_of_digits ds)), rest))))"

text \<open>
  \<^verbatim>\<open>dict(pairs)\<close>: a key that comes again keeps its place and takes the new value.
\<close>

fun dict_insert :: "(pyval \<times> pyval) list \<Rightarrow> pyval \<Rightarrow> pyval \<Rightarrow> (pyval \<times> pyval) list" where
  "dict_insert [] k v = [(k, v)]"
| "dict_insert ((k', v') # d) k v =
     (if k' = k then (k', v) # d else (k', v') # dict_insert d k v)"

definition dict :: "(pyval \<times> pyval) list \<Rightarrow> (pyval \<times> pyval) list" where
  "dict pairs = foldl (\<lambda>d kv. dict_insert d (fst kv) (snd kv)) [] pairs"

definition next_is :: "char \<Rightarrow> string \<Rightarrow> bool" where
  "next_is c s = (case s of [] \<Rightarrow> False | d # ds \<Rightarrow> d = c)"

text \<open>
  \<open>scan_once\<close> reads one value at the start of the text and returns it with the rest
  of the text; \<open>scan_array\<close> reads the items of a list after \<^verbatim>\<open>[\<close>, and
  \<open>scan_object\<close> the items of a dictionary after \<^verbatim>\<open>{\<close>. The first argument bounds
  the recursion: it goes down by one at every \<^verbatim>\<open>[\<close>, \<^verbatim>\<open>{\<close> and \<^verbatim>\<open>,\<close> that is
  read. \<open>json_loads\<close> starts with the length of the text, which is never used up
  (lemma \<open>json_loads_fuel\<close>). The RecursionError of the interpreter on a very deep
  nesting is not modelled.
\<close>

fun scan_once :: "nat \<Rightarrow> string \<Rightarrow> error + pyval \<times> string"
  and scan_array :: "nat \<Rightarrow> string \<Rightarrow> error + pyval list \<times> string"
  and scan_object :: "nat \<Rightarrow> string \<Rightarrow> error + (pyval \<times> pyval) list \<times> string" where
  "scan_once fuel s =
     (if next_is (CHR 0x22) s
      then (case scanstring (tl s) of
              Inl e \<Rightarrow> Inl e
            | Inr (chars, rest) \<Rightarrow> Inr (PStr chars, rest))
      else if next_is (CHR ''{'') s
      then (if next_is (CHR ''}'') (skip_ws (tl s)) then Inr (PDict [], tl (skip_ws (tl s)))
            else (case fuel of
                    0 \<Rightarrow> Inl OutOfFuel
                  | Suc fuel' \<Rightarrow>
                      (case scan_object fuel' (skip_ws (tl s)) of
                         Inl e \<Rightarrow> Inl e
                       | Inr (pairs, rest) \<Rightarrow> Inr (PDict (dict pairs), rest))))
      else if next_is (CHR ''['') s
      then (if next_is (CHR '']'') (skip_ws (tl s)) then Inr (PList [], tl (skip_ws (tl s)))
            else (case fuel of
                    0 \<Rightarrow> Inl OutOfFuel
                  | Suc fuel' \<Rightarrow>
                      (case scan_array fuel' (skip_ws (tl s)) of
                         Inl e \<Rightarrow> Inl e
                       | Inr (elements, rest) \<Rightarrow> Inr (PList elements, rest))))
      else if prefix ''null'' s then Inr (PNone, drop 4 s)
      else if prefix ''true'' s then Inr (PBool True, drop 4 s)
      else if prefix ''false'' s then Inr (PBool False, drop 5 s)
      else (case scan_number s of
              Some r \<Rightarrow> r
            | None \<Rightarrow>
                if prefix ''NaN'' s \<or> prefix ''Infinity'' s \<or> prefix ''-Infinity'' s
                then Inl OutsideModel else Inl SyntaxError))"
| "scan_array fuel s =
     (case scan_once fuel s of
        Inl e \<Rightarrow> Inl e
      | Inr (v, rest) \<Rightarrow>
          if next_is (CHR '']'') (skip_ws rest) then Inr ([v], tl (skip_ws rest))
          else if next_is (CHR '','') (skip_ws rest)
          then (case fuel of
                  0 \<Rightarrow> Inl OutOfFuel
                | Suc fuel' \<Rightarrow>
                    (case scan_array fuel' (skip_ws (tl (skip_ws rest))) of
                       Inl e \<Rightarrow> Inl e
                     | Inr (elements, rest') \<Rightarrow> Inr (v # elements, rest')))
          else Inl SyntaxError)"
| "scan_object fuel s =
     (if \<not> next_is (CHR 0x22) s then Inl SyntaxError
      else
        (case scanstring (tl s) of
           Inl e \<Rightarrow> Inl e
         | Inr (key, rest) \<Rightarrow>
             if \<not> next_is (CHR '':'') (skip_ws rest) then Inl SyntaxError
             else
               (case scan_once fuel (skip_ws (tl (skip_ws rest))) of
                  Inl e \<Rightarrow> Inl e
                | Inr (v, rest') \<Rightarrow>
                    if next_is (CHR ''}'') (skip_ws rest')
                    then Inr ([(PStr key, v)], tl (skip_ws rest'))
                    else if next_is (CHR '','') (skip_ws rest')
                    then (case fuel of
                            0 \<Rightarrow> Inl OutOfFuel
                          | Suc fuel' \<Rightarrow>
                              (case scan_object fuel' (skip_ws (tl (skip_ws rest'))) of
                                 Inl e \<Rightarrow> Inl e
                               | Inr (pairs, rest'') \<Rightarrow> Inr ((PStr key, v) # pairs, rest'')))
                    else Inl SyntaxError)))"

declare scan_once.simps [simp del] scan_array.simps [simp del] scan_object.simps [simp del]

definition json_loads :: "string \<Rightarrow> error + pyval" where
  "json_loads s =
     (case scan_once (length s) (skip_ws s) of
        Inl e \<Rightarrow> Inl e
      | Inr (obj, rest) \<Rightarrow> if skip_ws rest = [] then Inr obj else Inl SyntaxError)"

subsection \<open>Values that JSON carries\<close>

text \<open>
  \<open>json_safe x\<close>: \<open>x\<close> is built from \<^verbatim>\<open>None\<close>, booleans, strings, lists and
  dictionaries whose keys are strings, no key twice. \<open>parses_back\<close> and \<open>consumes\<close>
  are the invariants of the proofs below: a value whose text the scanner reads back, and
  a scanner result that has not run out of fuel and has taken at least one character.
\<close>

fun is_str :: "pyval \<Rightarrow> bool" where
  "is_str (PStr s) = True"
| "is_str _ = False"

fun json_safe :: "pyval \<Rightarrow> bool" where
  "json_safe PNone = True"
| "json_safe (PBool b) = True"
| "json_safe (PInt i) = False"
| "json_safe (PStr s) = True"
| "json_safe (PList xs) = (\<forall>x \<in> set xs. json_safe x)"
| "json_safe (PDict kvs) =
     (distinct (map fst kvs) \<and> (\<forall>kv \<in> set kvs. is_str (fst kv) \<and> json_safe (snd kv)))"

definition starts_value :: "string \<Rightarrow> bool" where
  "starts_value t =
     (case t of
        [] \<Rightarrow> False
      | c # cs \<Rightarrow> c = CHR 0x22 \<or> c = CHR ''['' \<or> c = CHR ''{'' \<or> c = CHR ''n''
          \<or> c = CHR ''t'' \<or> c = CHR ''f'')"

definition parses_back :: "pyval \<Rightarrow> bool" where
  "parses_back x \<longleftrightarrow>
     (\<exists>t. json_dumps x = Inr t \<and> starts_value t \<and>
          (\<forall>n rest. length t \<le> n \<longrightarrow> scan_once n (t @ rest) = Inr (x, rest)))"

definition consumes :: "error + 'a \<times> string \<Rightarrow> string \<Rightarrow> bool" where
  "consumes result s \<longleftrightarrow>
     result \<noteq> Inl OutOfFuel \<and> (\<forall>v r. result = Inr (v, r) \<longrightarrow> length r < length s)"

text \<open>
  A canonical contact collection: a list of dictionaries of the shape that
  \<^verbatim>\<open>Contact.to_dict\<close> builds, with strings for the name, the address and the phone
  number.
\<close>

fun is_details :: "pyval \<Rightarrow> bool" where
  "is_details (PDict [(k1, a), (k2, p)]) =
     (k1 = PStr ''address'' \<and> is_str a \<and> k2 = PStr ''phone_number'' \<and> is_str p)"
| "is_details _ = False"

fun is_contact :: "pyval \<Rightarrow> bool" where
  "is_contact (PDict [(n, v)]) = (is_str n \<and> is_details v)"
| "is_contact _ = False"

definition canonical :: "pyval \<Rightarrow> bool" where
  "canonical x = (case x of PList cs \<Rightarrow> list_all is_contact cs | _ \<Rightarrow> False)"

section \<open>The libraries as modelled\<close>

text \<open>
  YAML has no model here. Where a statement needs a YAML library to run, it takes one
  that writes and reads flow style, the JSON syntax that YAML contains: the writer is the
  JSON writer followed by a line break, the reader is the JSON reader. On the documents
  used below (\<^verbatim>\<open>[]\<close>, \<^verbatim>\<open>42\<close>, a mapping in braces) \<^verbatim>\<open>yaml.safe_load\<close> returns
  what this reader returns, and \<^verbatim>\<open>yaml.dump([])\<close> is the text \<^verbatim>\<open>[]\<close> and a line
  break, as this writer has it.
\<close>

definition yaml_flow_dump :: "pyval \<Rightarrow> error + string" where
  "yaml_flow_dump obj =
     (case json_dumps obj of Inl e \<Rightarrow> Inl e | Inr s \<Rightarrow> Inr (s @ ''\<newline>''))"

definition yaml_flow_load :: "string \<Rightarrow> error + pyval" where
  "yaml_flow_load s = json_loads s"


section \<open>Example documents\<close>

definition header_and_row :: string where
  "header_and_row =
     ''<table><tr><th>Name</th><th>Address</th><th>Phone Number</th></tr>''
     @ ''<tr><td>Bob</td><td>2 High St</td><td>555-2222</td></tr></table>''"

definition header_and_row_tree :: element where
  "header_and_row_tree =
     Element ''html'' None [Element ''table'' None
       [Element ''tr'' None
          [Element ''th'' (Some ''Name'') [], Element ''th'' (Some ''Address'') [],
           Element ''th'' (Some ''Phone Number'') []],
        Element ''tr'' None
          [Element ''td'' (Some ''Bob'') [], Element ''td'' (Some ''2 High St'') [],
           Element ''td'' (Some ''555-2222'') []]]]"

definition mapping_document :: string where
  "mapping_document = ''{'' @ [CHR 0x22] @ ''Bob'' @ [CHR 0x22] @ '': 42}''"


section \<open>Facts about the delimited text codec\<close>

lemma split_line:
  "CHR ''\<newline>'' \<notin> set w \<Longrightarrow>
     split ''\<newline>'' (w @ CHR ''\<newline>'' # rest) = w # split ''\<newline>'' rest"
  by (induction w) (auto split: list.splits)

lemma split_no_pair: "no_pair a b s \<Longrightarrow> split [a, b] s = [s]"
  by (induction a b s rule: no_pair.induct) (auto split: list.splits)

lemma no_pair_append:
  "a \<notin> set w \<Longrightarrow> w \<noteq> [] \<Longrightarrow> no_pair a b (w @ rest) = no_pair a b rest"
proof (induction w)
  case Nil
  then show ?case by simp
next
  case (Cons c w)
  show ?case
  proof (cases w)
    case Nil
    with Cons.prems show ?thesis by (cases rest) auto
  next
    case (Cons d w')
    with Cons.prems Cons.IH show ?thesis by auto
  qed
qed

lemma no_pair_line:
  "a \<notin> set w \<Longrightarrow> w \<noteq> [] \<Longrightarrow> no_pair a a (a # w @ rest) = no_pair a a rest"
  using no_pair_append [of a w a rest] by (cases w) auto

lemma one_contact_text:
  "formatted_text_encode (PList [contact nm address phone_number]) =
     Inr (CHR ''\<newline>'' # nm @ CHR ''\<newline>'' # (''address: '' @ address)
            @ CHR ''\<newline>'' # (''phone_number: '' @ phone_number) @ ''\<newline>'',
          length nm + length address + length phone_number + 27)"
  by (simp add: formatted_text_encode_def contact_def)

lemma last_split_key:
  assumes "no_pair (CHR '':'') (CHR '' '') v"
  shows "index_last (split '': '' (''address: '' @ v)) = Inr v"
    and "index_last (split '': '' (''phone_number: '' @ v)) = Inr v"
  using split_no_pair [OF assms] by (simp_all add: index_last_def)

text \<open>
  One contact comes back from the text codec when its name is not empty and holds no
  line break, and its address and phone number hold neither a line break nor the
  separator \<^verbatim>\<open>': '\<close>.
\<close>

lemma formatted_text_roundtrip_one_contact:
  assumes "nm \<noteq> []" and "CHR ''\<newline>'' \<notin> set nm"
    and "CHR ''\<newline>'' \<notin> set address" and "CHR ''\<newline>'' \<notin> set phone_number"
    and "no_pair (CHR '':'') (CHR '' '') address"
    and "no_pair (CHR '':'') (CHR '' '') phone_number"
  shows "roundtrip formatted_text_encode formatted_text_decode
           (PList [contact nm address phone_number]) =
         Inr (PList [contact nm address phone_number])"
proof -
  define nl where "nl = CHR ''\<newline>''"
  define line2 where "line2 = ''address: '' @ address"
  define line3 where "line3 = ''phone_number: '' @ phone_number"
  define body where "body = nl # nm @ nl # line2 @ nl # line3 @ [nl]"
  have l1: "nl \<notin> set nm" "nm \<noteq> []"
    using assms(1,2) by (simp_all add: nl_def)
  have l2: "nl \<notin> set line2" "line2 \<noteq> []"
    using assms(3) by (auto simp: nl_def line2_def)
  have l3: "nl \<notin> set line3" "line3 \<noteq> []"
    using assms(4) by (auto simp: nl_def line3_def)
  have "no_pair nl nl body = no_pair nl nl (nl # line2 @ nl # line3 @ [nl])"
    unfolding body_def by (rule no_pair_line [OF l1])
  also have "\<dots> = no_pair nl nl (nl # line3 @ [nl])"
    by (rule no_pair_line [OF l2])
  also have "\<dots> = no_pair nl nl [nl]"
    by (rule no_pair_line [OF l3])
  finally have "no_pair nl nl body"
    by simp
  then have fragments: "split [nl, nl] body = [body]"
    by (rule split_no_pair)
  have "split [nl] body = [] # split [nl] (nm @ nl # line2 @ nl # line3 @ [nl])"
    unfolding body_def using split_line [of "[]"] by (simp add: nl_def del: split.simps)
  also have "\<dots> = [] # nm # split [nl] (line2 @ nl # line3 @ [nl])"
    using split_line [of nm] l1(1) by (simp add: nl_def del: split.simps)
  also have "\<dots> = [] # nm # line2 # split [nl] (line3 @ [nl])"
    using split_line [of line2] l2(1) by (simp add: nl_def del: split.simps)
  also have "\<dots> = [] # nm # line2 # line3 # split [nl] []"
    using split_line [of line3 "[]"] l3(1) by (simp add: nl_def del: split.simps)
  finally have lines: "split [nl] body = [[], nm, line2, line3, []]"
    by simp
  have body_not_Nil: "body \<noteq> []"
    by (simp add: body_def)
  have "decode_fragment body = Inr (contact nm address phone_number)"
    using last_split_key(1) [OF assms(5)] last_split_key(2) [OF assms(6)] lines
    by (simp add: decode_fragment_def index_def nl_def line2_def line3_def del: split.simps)
  with fragments body_not_Nil
  have "formatted_text_decode body = Inr (PList [contact nm address phone_number], 1)"
    by (simp add: formatted_text_decode_def nl_def del: split.simps)
  moreover have "formatted_text_encode (PList [contact nm address phone_number])
      = Inr (body, length nm + length address + length phone_number + 27)"
    using one_contact_text [of nm address phone_number]
    by (simp add: body_def nl_def line2_def line3_def)
  ultimately show ?thesis
    by (simp add: roundtrip_def)
qed

lemma formatted_text_roundtrip_three_contacts:
  "roundtrip formatted_text_encode formatted_text_decode
     (PList [contact ''Alice'' ''1 Main St'' ''555-1111'',
             contact ''Bob'' ''2 High St'' ''555-2222'',
             contact ''Carol'' ''3 Low St'' ''555-3333'']) = Inl IndexError"
  by code_simp

text \<open>
  C1. Decoding the encoding of a collection of two contacts does not give the collection
  back. The text of the second contact loses its leading line break to the separator
  \<^verbatim>\<open>'\n\n'\<close>, so the decoder, reading the lines 1, 2 and 3 of every fragment, takes
  the address line for the name, the phone number for the address and the empty last
  line for the phone number.
\<close>

theorem formatted_text_roundtrip_two_contacts:
  "roundtrip formatted_text_encode formatted_text_decode
     (PList [contact ''Alice'' ''1 Main St'' ''555-1111'',
             contact ''Bob'' ''2 High St'' ''555-2222'']) =
   Inr (PList [contact ''Alice'' ''1 Main St'' ''555-1111'',
               contact ''address: 2 High St'' ''555-2222'' ''''])"
  by code_simp

section \<open>Facts about the HTML table codec\<close>



lemma lxml_parse_header_and_row: "lxml_parse header_and_row = Inr header_and_row_tree"
  by code_simp




text \<open>
  C9. When the rows of the document are a header row with no \<^verbatim>\<open>td\<close> cell and one
  row of three cells, the decoder returns exactly one contact: the text of the first
  cell is the name, of the second the address, of the third the phone number.
\<close>

theorem html_table_decode_header_and_row:
  assumes "parser doc = Inr tree"
    and "findall ''tr'' tree = [header, row]"
    and "findall ''td'' header = []"
    and "findall ''td'' row = [c0, c1, c2]"
  shows "html_table_decode parser doc =
     Inr (PList [PDict [(cell_text c0,
                         PDict [(PStr ''address'', cell_text c1),
                                (PStr ''phone_number'', cell_text c2)])]], 1)"
  using assms by (simp add: html_table_decode_def index_def row_contact_def)

theorem html_table_decode_header_and_row_witness:
  "lxml_parse header_and_row = Inr header_and_row_tree
   \<and> html_table_decode lxml_parse header_and_row
     = Inr (PList [PDict [(PStr ''Bob'',
                         PDict [(PStr ''address'', PStr ''2 High St''),
                                (PStr ''phone_number'', PStr ''555-2222'')])]], 1)"
  using html_table_decode_header_and_row [of lxml_parse header_and_row header_and_row_tree
      "Element ''tr'' None
          [Element ''th'' (Some ''Name'') [], Element ''th'' (Some ''Address'') [],
           Element ''th'' (Some ''Phone Number'') []]"
      "Element ''tr'' None
          [Element ''td'' (Some ''Bob'') [], Element ''td'' (Some ''2 High St'') [],
           Element ''td'' (Some ''555-2222'') []]"
      "Element ''td'' (Some ''Bob'') []" "Element ''td'' (Some ''2 High St'') []"
      "Element ''td'' (Some ''555-2222'') []"]
  by (simp add: lxml_parse_header_and_row header_and_row_tree_def findall_def cell_text_def)

text \<open>
  C10. For a row that the loop processes (three cells or more), the contact appended is
  built from the text of the cells 0, 1 and 2, and the field of a cell that has no text
  is \<^verbatim>\<open>None\<close>, not the empty string.
\<close>

theorem decode_rows_cell_without_text:
  assumes "findall ''td'' row = c0 # c1 # c2 # extra"
  shows "decode_rows (row # table_rows) contacts =
     decode_rows table_rows (contacts @
       [PDict [(if etext c0 = None then PNone else PStr (the (etext c0)),
                PDict [(PStr ''address'',
                        if etext c1 = None then PNone else PStr (the (etext c1))),
                       (PStr ''phone_number'',
                        if etext c2 = None then PNone else PStr (the (etext c2)))])]])"
  using assms by (auto simp: index_def row_contact_def cell_text_def split: option.splits)

theorem decode_rows_cell_without_text_witness:
  "decode_rows
     [Element ''tr'' None
        [Element ''td'' (Some ''Bob'') [], Element ''td'' None [], Element ''td'' None []]] [] =
   Inr [PDict [(PStr ''Bob'', PDict [(PStr ''address'', PNone), (PStr ''phone_number'', PNone)])]]"
  using decode_rows_cell_without_text [of
      "Element ''tr'' None
        [Element ''td'' (Some ''Bob'') [], Element ''td'' None [], Element ''td'' None []]"
      "Element ''td'' (Some ''Bob'') []" "Element ''td'' None []" "Element ''td'' None []" "[]"
      "[]" "[]"]
  by (simp add: findall_def)

lemma html_contacts_fields:
  "html_contacts (map fields_contact ts) html_table =
     Inr (html_table @ concat (map row_text ts))"
  by (induction ts arbitrary: html_table) (auto simp: contact_def)

lemma tokenize_text:
  "CHR ''<'' \<notin> set w \<Longrightarrow>
     tokenize InText acc (w @ CHR ''<'' # rest) = text_token (rev w @ acc) @ tokenize InTag [] rest"
  by (induction w arbitrary: acc) auto

lemma tokenize_row:
  assumes "fields_safe t"
  shows "tokenize InText [] (row_text t @ rest) = row_tokens t @ tokenize InText [] rest"
proof -
  obtain n a p where t: "t = (n, a, p)" by (cases t)
  with assms have safe: "CHR ''<'' \<notin> set n" "CHR ''<'' \<notin> set a" "CHR ''<'' \<notin> set p"
    "n \<noteq> []" "a \<noteq> []" "p \<noteq> []"
    by (simp_all add: html_safe_def)
  then show ?thesis
    by (simp add: t table_row_def tokenize_text text_token_def tag_token_def)
qed

lemma tokenize_rows:
  "\<forall>t \<in> set ts. fields_safe t \<Longrightarrow>
     tokenize InText [] (concat (map row_text ts) @ rest) =
       concat (map row_tokens ts) @ tokenize InText [] rest"
  by (induction ts) (simp_all add: tokenize_row)

lemma tokenize_header:
  "tokenize InText [] (html_table_header @ CHR ''<'' # rest) =
     header_tokens @ tokenize InText [] (CHR ''<'' # rest)"
  by (simp add: html_table_header_def header_tokens_def text_token_def tag_token_def)

lemma tokenize_footer: "tokenize InText [] ''</table>'' = [EndTag ''table'']"
  by (simp add: text_token_def tag_token_def)


lemma build_row:
  "build (row_tokens t @ ts) cur stack = build ts (add_child cur (row_element t)) stack"
  by (cases t) (simp add: add_text_def add_child_def close_frame_def)

lemma build_rows:
  "build (concat (map row_tokens rows) @ ts) cur stack =
     build ts (cur\<lparr>frame_children := frame_children cur @ map row_element rows\<rparr>) stack"
proof (induction rows arbitrary: cur)
  case Nil
  show ?case by simp
next
  case (Cons t rows)
  show ?case
    using Cons.IH [of "add_child cur (row_element t)"]
    by (simp add: build_row add_child_def)
qed

lemma build_document:
  "build (header_tokens @ concat (map row_tokens rows) @ [EndTag ''table''])
     \<lparr>frame_tag = ''html'', frame_text = None, frame_children = []\<rparr> [] =
   Element ''html'' (Some ''\<newline>    '')
     [Element ''table'' (Some ''\<newline>    '')
        (style_element # header_row # map row_element rows)]"
  by (simp add: header_tokens_def build_rows add_text_def add_child_def close_frame_def
      style_element_def header_row_def)

lemma tokenize_document:
  assumes "\<forall>t \<in> set rows. fields_safe t"
  shows "tokenize InText [] (html_table_header @ concat (map row_text rows) @ ''</table>'') =
     header_tokens @ concat (map row_tokens rows) @ [EndTag ''table'']"
proof -
  have "\<exists>rest. concat (map row_text rows) @ ''</table>'' = CHR ''<'' # rest"
    by (cases rows) (auto simp: table_row_def)
  then obtain rest where rest: "concat (map row_text rows) @ ''</table>'' = CHR ''<'' # rest"
    by blast
  have "tokenize InText [] (html_table_header @ concat (map row_text rows) @ ''</table>'') =
      header_tokens @ tokenize InText [] (concat (map row_text rows) @ ''</table>'')"
    unfolding rest by (rule tokenize_header)
  also have "tokenize InText [] (concat (map row_text rows) @ ''</table>'') =
      concat (map row_tokens rows) @ tokenize InText [] ''</table>''"
    by (rule tokenize_rows [OF assms])
  finally show ?thesis
    by (simp only: tokenize_footer)
qed

lemma lxml_parse_document:
  assumes "\<forall>t \<in> set rows. fields_safe t"
  shows "lxml_parse (html_table_header @ concat (map row_text rows) @ ''</table>'') =
     Inr (Element ''html'' (Some ''\<newline>    '')
       [Element ''table'' (Some ''\<newline>    '')
          (style_element # header_row # map row_element rows)])"
  using build_document [of rows]
  by (simp add: lxml_parse_def tokenize_document [OF assms] header_tokens_def)

lemma findall_rows:
  "filter (\<lambda>d. tag d = ''tr'') (concat (map (\<lambda>c. c # descendants c) (map row_element rows))) =
     map row_element rows"
  by (induction rows) auto

lemma findall_document:
  "findall ''tr'' (Element ''html'' x
       [Element ''table'' y (style_element # header_row # map row_element rows)]) =
     header_row # map row_element rows"
  using findall_rows [of rows]
  by (simp add: findall_def style_element_def header_row_def)

lemma decode_rows_elements:
  "decode_rows (map row_element rows) contacts = Inr (contacts @ map fields_contact rows)"
proof (induction rows arbitrary: contacts)
  case Nil
  show ?case by simp
next
  case (Cons t rows)
  obtain n a p where t: "t = (n, a, p)" by (cases t)
  show ?case
    using Cons.IH [of "contacts @ [fields_contact t]"]
    by (simp add: t findall_def index_def row_contact_def cell_text_def contact_def)
qed

text \<open>
  The HTML table codec gives back every collection whose fields are not empty and hold
  neither \<^verbatim>\<open><\<close> nor \<^verbatim>\<open>&\<close>, whatever the number of contacts.
\<close>

lemma html_table_roundtrip_fields:
  assumes "\<forall>t \<in> set rows. fields_safe t"
  shows "roundtrip html_table_encode (html_table_decode lxml_parse)
           (PList (map fields_contact rows)) =
         Inr (PList (map fields_contact rows))"
proof -
  let ?doc = "html_table_header @ concat (map row_text rows) @ ''</table>''"
  have enc: "html_table_encode (PList (map fields_contact rows)) = Inr (?doc, length ?doc)"
    by (simp add: html_table_encode_def html_contacts_fields)
  have "findall ''td'' header_row = []"
    by (simp add: findall_def header_row_def)
  then have "html_table_decode lxml_parse ?doc =
      Inr (PList (map fields_contact rows), length rows)"
    using decode_rows_elements [of rows "[]"]
    by (simp add: html_table_decode_def lxml_parse_document [OF assms] findall_document)
  with enc show ?thesis
    by (simp add: roundtrip_def)
qed

lemma html_table_roundtrip_two_contacts:
  "roundtrip html_table_encode (html_table_decode lxml_parse)
     (PList [contact ''Alice'' ''1 Main St'' ''555-1111'',
             contact ''Bob'' ''2 High St'' ''555-2222'']) =
   Inr (PList [contact ''Alice'' ''1 Main St'' ''555-1111'',
               contact ''Bob'' ''2 High St'' ''555-2222''])"
  by code_simp

text \<open>
  C6. The round trip through the HTML table codec loses an empty string: the encoder
  writes the cell \<^verbatim>\<open><td></td>\<close>, an element without text, and the decoder returns
  \<^verbatim>\<open>None\<close> for the address.
\<close>

theorem html_table_roundtrip_empty_string:
  "roundtrip html_table_encode (html_table_decode lxml_parse)
     (PList [contact ''Bob'' '''' ''555-2222'']) =
   Inr (PList [PDict [(PStr ''Bob'',
                       PDict [(PStr ''address'', PNone),
                              (PStr ''phone_number'', PStr ''555-2222'')])]])"
  by code_simp

section \<open>Facts about the registry\<close>

lemma first_match_append:
  "first_match (xs @ ys) encoding =
     (case first_match xs encoding of
        Some info \<Rightarrow> Some info
      | None \<Rightarrow> first_match ys encoding)"
  by (induction xs) (auto split: option.splits)

lemma register_codecs_append:
  "register_codecs search_path =
     search_path @ [json_search, yaml_search, html_table_search, formatted_text_search]"
  by (simp add: register_codecs_def codecs_register_def)

text \<open>
  C5, as the code has it. A second call of \<^verbatim>\<open>register_codecs\<close> appends the four
  search functions once more, after the entries already there, whose order it keeps;
  every name resolves as it did after the first call.
\<close>

theorem register_codecs_twice:
  "register_codecs (register_codecs search_path) =
     register_codecs search_path
       @ [json_search, yaml_search, html_table_search, formatted_text_search]
   \<and> codecs_lookup normalizestring (register_codecs (register_codecs search_path)) encoding =
     codecs_lookup normalizestring (register_codecs search_path) encoding"
proof -
  have "first_match (register_codecs (register_codecs search_path)) e =
        first_match (register_codecs search_path) e" for e
    by (simp add: register_codecs_append first_match_append split: option.splits)
  then show ?thesis
    by (simp add: codecs_lookup_def register_codecs_append)
qed

text \<open>
  C5, as the claim states it, fails: after two calls on an empty search path every
  search function is there twice.
\<close>

theorem register_codecs_twice_duplicates:
  "register_codecs (register_codecs []) =
     [json_search, yaml_search, html_table_search, formatted_text_search,
      json_search, yaml_search, html_table_search, formatted_text_search]"
  by (simp add: register_codecs_def codecs_register_def)

section \<open>Facts about the JSON model\<close>

lemma hex_val_hex_digit: "k < 16 \<Longrightarrow> hex_val (hex_digit k) = Some k"
  by (auto simp: hex_val_def hex_digit_def Let_def)

lemma hex_val_zero: "hex_val (CHR ''0'') = Some 0"
  by (simp add: hex_val_def)

lemma of_char_less_256: "(of_char c :: nat) < 256"
proof -
  have "(of_char c :: nat) mod 256 < 256" by simp
  then show ?thesis by simp
qed

lemma scanstring_escape_char:
  "scanstring (json_escape_char c @ tail) =
     (case scanstring tail of Inl e \<Rightarrow> Inl e | Inr (s, rest) \<Rightarrow> Inr (c # s, rest))"
proof -
  let ?n = "of_char c :: nat"
  have d: "?n div 16 < 16"
    using of_char_less_256 [of c] by arith
  have m: "?n mod 16 < 16"
    by simp
  have same: "char_of ((?n div 16) * 16 + ?n mod 16) = c"
    by simp
  have lt: "(?n div 16) * 16 + ?n mod 16 < 256"
    using of_char_less_256 [of c] by simp
  show ?thesis
  proof (cases "?n < 32 \<or> 126 < ?n")
    case True
    show ?thesis
    proof (cases "c = CHR 0x22 \<or> c = CHR 0x5C \<or> c = CHR 0x0A \<or> c = CHR 0x0D \<or> c = CHR 0x09
        \<or> c = CHR 0x0C \<or> c = CHR 0x08")
      case True
      then show ?thesis
        by (auto simp: json_escape_char_def backslash_def)
    next
      case False
      with True have esc: "json_escape_char c =
          [CHR 0x5C, CHR ''u'', CHR ''0'', CHR ''0'', hex_digit (?n div 16), hex_digit (?n mod 16)]"
        by (simp add: json_escape_char_def Let_def)
      show ?thesis
        using same lt
        by (simp add: esc hex4_def hex_val_zero hex_val_hex_digit [OF d] hex_val_hex_digit [OF m]
            split: sum.splits)
    qed
  next
    case False
    then show ?thesis
      by (auto simp: json_escape_char_def backslash_def Let_def)
  qed
qed

lemma scanstring_escape:
  "scanstring (concat (map json_escape_char s) @ CHR 0x22 # rest) = Inr (s, rest)"
  by (induction s) (simp_all add: scanstring_escape_char)

lemma scanstring_json_string:
  "scanstring (tl (json_string s @ rest)) = Inr (s, rest)"
  using scanstring_escape [of s rest] by (simp add: json_string_def)

lemma next_is_simps [simp]:
  "next_is c [] = False"
  "next_is c (d # ds) = (d = c)"
  by (simp_all add: next_is_def)

lemma skip_ws_simps [simp]:
  "skip_ws [] = []"
  "skip_ws (c # cs) = (if is_ws c then skip_ws cs else c # cs)"
  by (simp_all add: skip_ws_def)

lemma starts_value_append:
  assumes "starts_value t"
  shows "skip_ws (t @ r) = t @ r" and "\<not> next_is (CHR '']'') (t @ r)"
    and "\<not> next_is (CHR ''}'') (t @ r)" and "starts_value (t @ r)"
  using assms by (cases t; auto simp: starts_value_def is_ws_def)+

lemma starts_value_json_string: "starts_value (json_string s @ r)"
  by (simp add: starts_value_def json_string_def)

lemma scan_once_string: "scan_once n (json_string s @ rest) = Inr (PStr s, rest)"
  using scanstring_escape [of s rest]
  by (simp add: scan_once.simps json_string_def)

lemma scan_once_empty_list: "scan_once n (''[]'' @ rest) = Inr (PList [], rest)"
  by (simp add: scan_once.simps is_ws_def)

lemma scan_once_empty_dict: "scan_once n (''{}'' @ rest) = Inr (PDict [], rest)"
  by (simp add: scan_once.simps is_ws_def)

lemma scan_once_list:
  assumes "starts_value body"
  shows "scan_once (Suc m) (CHR ''['' # body @ tail) =
     (case scan_array m (body @ tail) of
        Inl e \<Rightarrow> Inl e
      | Inr (elements, rest) \<Rightarrow> Inr (PList elements, rest))"
  using starts_value_append [OF assms, of tail]
  by (simp add: scan_once.simps)

lemma scan_once_dict:
  assumes "starts_value body"
  shows "scan_once (Suc m) (CHR ''{'' # body @ tail) =
     (case scan_object m (body @ tail) of
        Inl e \<Rightarrow> Inl e
      | Inr (pairs, rest) \<Rightarrow> Inr (PDict (dict pairs), rest))"
  using starts_value_append [OF assms, of tail]
  by (simp add: scan_once.simps)

lemma scan_array_last:
  assumes "scan_once n (chunk @ CHR '']'' # rest) = Inr (x, CHR '']'' # rest)"
  shows "scan_array n (chunk @ CHR '']'' # rest) = Inr ([x], rest)"
  using assms by (simp add: scan_array.simps is_ws_def)

lemma scan_array_next:
  assumes "scan_once (Suc m) (chunk @ '', '' @ body @ tail) = Inr (x, '', '' @ body @ tail)"
    and "starts_value body"
  shows "scan_array (Suc m) (chunk @ '', '' @ body @ tail) =
     (case scan_array m (body @ tail) of
        Inl e \<Rightarrow> Inl e
      | Inr (elements, rest) \<Rightarrow> Inr (x # elements, rest))"
  using assms(1) starts_value_append [OF assms(2), of tail]
  by (simp add: scan_array.simps is_ws_def)

lemma join_Cons_Cons: "join sep (x # y # ys) = x @ sep @ join sep (y # ys)"
  by simp

lemma dumps_list_parses_back:
  assumes "xs \<noteq> []" and "\<forall>x \<in> set xs. parses_back x"
  shows "\<exists>chunks. dumps_list xs = Inr chunks \<and> starts_value (join '', '' chunks) \<and>
     (\<forall>n rest. length (join '', '' chunks) \<le> n \<longrightarrow>
        scan_array n (join '', '' chunks @ CHR '']'' # rest) = Inr (xs, rest))"
  using assms
proof (induction xs rule: list_nonempty_induct)
  case (single x)
  then obtain t where t: "json_dumps x = Inr t" "starts_value t"
    "\<And>n rest. length t \<le> n \<Longrightarrow> scan_once n (t @ rest) = Inr (x, rest)"
    by (auto simp: parses_back_def)
  have "scan_array n (t @ CHR '']'' # rest) = Inr ([x], rest)" if "length t \<le> n" for n rest
    using t(3) [OF that, of "CHR '']'' # rest"] by (rule scan_array_last)
  with t show ?case by simp
next
  case (cons x xs)
  then obtain t where t: "json_dumps x = Inr t" "starts_value t"
    "\<And>n rest. length t \<le> n \<Longrightarrow> scan_once n (t @ rest) = Inr (x, rest)"
    by (auto simp: parses_back_def)
  from cons obtain chunks where c: "dumps_list xs = Inr chunks" "starts_value (join '', '' chunks)"
    "\<And>n rest. length (join '', '' chunks) \<le> n \<Longrightarrow>
        scan_array n (join '', '' chunks @ CHR '']'' # rest) = Inr (xs, rest)"
    by auto
  from c(2) obtain d ds where chunks: "chunks = d # ds"
    by (cases chunks) (auto simp: starts_value_def)
  let ?body = "join '', '' chunks"
  have whole: "join '', '' (t # chunks) = t @ '', '' @ ?body"
    by (simp add: chunks)
  have "scan_array n (join '', '' (t # chunks) @ CHR '']'' # rest) = Inr (x # xs, rest)"
    if n: "length (join '', '' (t # chunks)) \<le> n" for n rest
  proof -
    from n obtain m where m: "n = Suc m" "length ?body \<le> m" "length t \<le> n"
      by (cases n) (auto simp: whole)
    have "scan_once (Suc m) (t @ '', '' @ ?body @ CHR '']'' # rest)
        = Inr (x, '', '' @ ?body @ CHR '']'' # rest)"
      using t(3) [of "Suc m" "'', '' @ ?body @ CHR '']'' # rest"] m by simp
    from scan_array_next [OF this c(2)] c(3) [OF m(2), of rest] m(1) show ?thesis
      by (simp add: whole)
  qed
  moreover have "starts_value (join '', '' (t # chunks))"
    using starts_value_append(4) [OF t(2)] by (simp add: whole)
  ultimately show ?case
    using t(1) c(1) by simp
qed

lemma scan_object_last:
  assumes "scan_once n (t @ CHR ''}'' # rest) = Inr (v, CHR ''}'' # rest)"
    and "starts_value t"
  shows "scan_object n (json_string key @ '': '' @ t @ CHR ''}'' # rest)
     = Inr ([(PStr key, v)], rest)"
proof -
  have q: "next_is (CHR 0x22) (json_string key @ '': '' @ t @ CHR ''}'' # rest)"
    by (simp add: json_string_def)
  show ?thesis
    using assms(1) starts_value_append [OF assms(2), of "CHR ''}'' # rest"] q
      scanstring_json_string [of key "'': '' @ t @ CHR ''}'' # rest"]
    by (simp add: scan_object.simps is_ws_def)
qed

lemma scan_object_next:
  assumes "scan_once (Suc m) (t @ '', '' @ body @ tail) = Inr (v, '', '' @ body @ tail)"
    and "starts_value t" and "starts_value body"
  shows "scan_object (Suc m) (json_string key @ '': '' @ t @ '', '' @ body @ tail) =
     (case scan_object m (body @ tail) of
        Inl e \<Rightarrow> Inl e
      | Inr (pairs, rest) \<Rightarrow> Inr ((PStr key, v) # pairs, rest))"
proof -
  have q: "next_is (CHR 0x22) (json_string key @ '': '' @ t @ '', '' @ body @ tail)"
    by (simp add: json_string_def)
  show ?thesis
    using assms(1) starts_value_append [OF assms(2), of "'', '' @ body @ tail"]
      starts_value_append [OF assms(3), of tail] q
      scanstring_json_string [of key "'': '' @ t @ '', '' @ body @ tail"]
    by (simp add: scan_object.simps is_ws_def)
qed

lemma dumps_items_parses_back:
  assumes "kvs \<noteq> []" and "\<forall>kv \<in> set kvs. is_str (fst kv) \<and> parses_back (snd kv)"
  shows "\<exists>chunks. dumps_items kvs = Inr chunks \<and> starts_value (join '', '' chunks) \<and>
     (\<forall>n rest. length (join '', '' chunks) \<le> n \<longrightarrow>
        scan_object n (join '', '' chunks @ CHR ''}'' # rest) = Inr (kvs, rest))"
  using assms
proof (induction kvs rule: list_nonempty_induct)
  case (single kv)
  then obtain key v where kv: "kv = (PStr key, v)"
    by (cases kv; cases "fst kv") auto
  with single obtain t where t: "json_dumps v = Inr t" "starts_value t"
    "\<And>n rest. length t \<le> n \<Longrightarrow> scan_once n (t @ rest) = Inr (v, rest)"
    by (auto simp: parses_back_def)
  let ?chunk = "json_string key @ '': '' @ t"
  have "scan_object n (?chunk @ CHR ''}'' # rest) = Inr ([kv], rest)"
    if "length ?chunk \<le> n" for n rest
  proof -
    from that have "length t \<le> n" by simp
    from scan_object_last [OF t(3) [OF this, of "CHR ''}'' # rest"] t(2), of key] show ?thesis
      by (simp add: kv)
  qed
  moreover have "starts_value ?chunk"
    by (rule starts_value_json_string)
  ultimately show ?case
    using t(1) by (simp add: kv)
next
  case (cons kv kvs)
  then obtain key v where kv: "kv = (PStr key, v)"
    by (cases kv; cases "fst kv") auto
  with cons obtain t where t: "json_dumps v = Inr t" "starts_value t"
    "\<And>n rest. length t \<le> n \<Longrightarrow> scan_once n (t @ rest) = Inr (v, rest)"
    by (auto simp: parses_back_def)
  from cons obtain chunks where c: "dumps_items kvs = Inr chunks"
    "starts_value (join '', '' chunks)"
    "\<And>n rest. length (join '', '' chunks) \<le> n \<Longrightarrow>
        scan_object n (join '', '' chunks @ CHR ''}'' # rest) = Inr (kvs, rest)"
    by auto
  from c(2) obtain d ds where chunks: "chunks = d # ds"
    by (cases chunks) (auto simp: starts_value_def)
  let ?chunk = "json_string key @ '': '' @ t"
  let ?body = "join '', '' chunks"
  have whole: "join '', '' (?chunk # chunks) = ?chunk @ '', '' @ ?body"
    by (simp add: chunks)
  have "scan_object n (join '', '' (?chunk # chunks) @ CHR ''}'' # rest) = Inr (kv # kvs, rest)"
    if n: "length (join '', '' (?chunk # chunks)) \<le> n" for n rest
  proof -
    have "length (join '', '' (?chunk # chunks))
        = length (json_string key) + 2 + length t + 2 + length ?body"
      by (simp add: chunks)
    with n obtain m where m: "n = Suc m" "length ?body \<le> m" "length t \<le> n"
      by (cases n) auto
    have "scan_once (Suc m) (t @ '', '' @ ?body @ CHR ''}'' # rest)
        = Inr (v, '', '' @ ?body @ CHR ''}'' # rest)"
      using t(3) [of "Suc m" "'', '' @ ?body @ CHR ''}'' # rest"] m by simp
    from scan_object_next [OF this t(2) c(2), of key] c(3) [OF m(2), of rest] m(1)
    show ?thesis
      by (simp add: chunks kv)
  qed
  moreover have "starts_value (join '', '' (?chunk # chunks))"
    using starts_value_json_string [of key] by (simp add: chunks)
  ultimately show ?case
    using t(1) c(1) by (simp add: kv)
qed

lemma dict_insert_fresh: "k \<notin> fst ` set d \<Longrightarrow> dict_insert d k v = d @ [(k, v)]"
  by (induction d) auto

lemma foldl_dict_insert_distinct:
  "distinct (map fst (d @ pairs)) \<Longrightarrow>
     foldl (\<lambda>d kv. dict_insert d (fst kv) (snd kv)) d pairs = d @ pairs"
proof (induction pairs arbitrary: d)
  case Nil
  then show ?case by simp
next
  case (Cons kv pairs)
  from Cons.prems have "fst kv \<notin> fst ` set d"
    by auto
  then have "dict_insert d (fst kv) (snd kv) = d @ [kv]"
    by (simp add: dict_insert_fresh)
  moreover from Cons.prems have "distinct (map fst ((d @ [kv]) @ pairs))"
    by simp
  ultimately show ?case
    using Cons.IH [of "d @ [kv]"] by simp
qed

lemma dict_distinct: "distinct (map fst pairs) \<Longrightarrow> dict pairs = pairs"
  using foldl_dict_insert_distinct [of "[]" pairs] by (simp add: dict_def)

lemma json_safe_parses_back: "json_safe x \<Longrightarrow> parses_back x"
proof (induction x)
  case PNone
  show ?case
    by (simp add: parses_back_def starts_value_def scan_once.simps)
next
  case (PBool b)
  show ?case
    by (cases b) (simp_all add: parses_back_def starts_value_def scan_once.simps)
next
  case (PInt i)
  then show ?case by simp
next
  case (PStr s)
  show ?case
    using starts_value_json_string [of s "[]"]
    by (simp add: parses_back_def scan_once_string)
next
  case (PList xs)
  show ?case
  proof (cases "xs = []")
    case True
    then show ?thesis
      using scan_once_empty_list by (simp add: parses_back_def starts_value_def)
  next
    case False
    from PList have "\<forall>x \<in> set xs. parses_back x"
      by simp
    from dumps_list_parses_back [OF False this]
    obtain chunks where c: "dumps_list xs = Inr chunks" "starts_value (join '', '' chunks)"
      "\<And>n rest. length (join '', '' chunks) \<le> n \<Longrightarrow>
          scan_array n (join '', '' chunks @ CHR '']'' # rest) = Inr (xs, rest)"
      by auto
    let ?body = "join '', '' chunks"
    have "scan_once n ((''['' @ ?body @ '']'') @ rest) = Inr (PList xs, rest)"
      if n: "length (''['' @ ?body @ '']'') \<le> n" for n rest
    proof -
      from n obtain m where m: "n = Suc m" "length ?body \<le> m"
        by (cases n) auto
      from scan_once_list [OF c(2), of m "CHR '']'' # rest"] c(3) [OF m(2), of rest] m(1)
      show ?thesis by simp
    qed
    then show ?thesis
      using c(1) by (simp add: parses_back_def starts_value_def)
  qed
next
  case (PDict kvs)
  show ?case
  proof (cases "kvs = []")
    case True
    then show ?thesis
      using scan_once_empty_dict by (simp add: parses_back_def starts_value_def)
  next
    case False
    from PDict have "\<forall>kv \<in> set kvs. is_str (fst kv) \<and> parses_back (snd kv)"
      by (auto simp: snds.simps)
    from dumps_items_parses_back [OF False this]
    obtain chunks where c: "dumps_items kvs = Inr chunks" "starts_value (join '', '' chunks)"
      "\<And>n rest. length (join '', '' chunks) \<le> n \<Longrightarrow>
          scan_object n (join '', '' chunks @ CHR ''}'' # rest) = Inr (kvs, rest)"
      by auto
    from PDict.prems have d: "dict kvs = kvs"
      by (simp add: dict_distinct)
    let ?body = "join '', '' chunks"
    have "scan_once n ((''{'' @ ?body @ ''}'') @ rest) = Inr (PDict kvs, rest)"
      if n: "length (''{'' @ ?body @ ''}'') \<le> n" for n rest
    proof -
      from n obtain m where m: "n = Suc m" "length ?body \<le> m"
        by (cases n) auto
      from scan_once_dict [OF c(2), of m "CHR ''}'' # rest"] c(3) [OF m(2), of rest] m(1) d
      show ?thesis by simp
    qed
    then show ?thesis
      using c(1) by (simp add: parses_back_def starts_value_def)
  qed
qed

lemma json_loads_json_dumps:
  assumes "json_safe x"
  shows "\<exists>t. json_dumps x = Inr t \<and> json_loads t = Inr x"
proof -
  from json_safe_parses_back [OF assms]
  obtain t where t: "json_dumps x = Inr t" "starts_value t"
    "\<And>n rest. length t \<le> n \<Longrightarrow> scan_once n (t @ rest) = Inr (x, rest)"
    by (auto simp: parses_back_def)
  from starts_value_append(1) [OF t(2), of "[]"] t(3) [of "length t" "[]"]
  have "json_loads t = Inr x"
    by (simp add: json_loads_def)
  with t(1) show ?thesis by simp
qed

lemma length_skip_ws: "length (skip_ws s) \<le> length s"
  by (simp add: skip_ws_def length_dropWhile_le)

lemma scanstring_consumes:
  "(scanstring s \<noteq> Inl OutOfFuel \<and> (\<forall>x r. scanstring s = Inr (x, r) \<longrightarrow> length r < length s))"
  "(scan_escape s \<noteq> Inl OutOfFuel \<and> (\<forall>x r. scan_escape s = Inr (x, r) \<longrightarrow> length r < length s))"
  "(scan_unicode s \<noteq> Inl OutOfFuel \<and> (\<forall>x r. scan_unicode s = Inr (x, r) \<longrightarrow> length r < length s))"
  by (induction s and s and s rule: scanstring_scan_escape_scan_unicode.induct)
    (auto simp: Let_def split: sum.splits option.splits if_splits)

lemma scan_number_consumes:
  "scan_number s \<noteq> Some (Inl OutOfFuel)"
  "scan_number s = Some (Inr (v, r)) \<Longrightarrow> length r < length s"
  by (cases s; auto simp: scan_number_def Let_def starts_with_digit_def split: if_splits list.splits)+

lemma next_is_tl: "next_is c s \<Longrightarrow> Suc (length (tl s)) = length s"
  by (cases s) auto

lemma consumes_scanstring: "next_is c s \<Longrightarrow> consumes (scanstring (tl s)) s"
  using scanstring_consumes(1) [of "tl s"] next_is_tl [of c s]
  by (auto simp: consumes_def)

lemma prefix_drop_shorter: "prefix p s \<Longrightarrow> p \<noteq> [] \<Longrightarrow> length (drop (length p) s) < length s"
  by (cases s) (auto simp: prefix_def)

lemma scan_consumes:
  "length s \<le> fuel \<longrightarrow> consumes (scan_once fuel s) s"
  "length s \<le> fuel \<longrightarrow> consumes (scan_array fuel s) s"
  "length s \<le> fuel \<longrightarrow> consumes (scan_object fuel s) s"
proof (induction fuel s and fuel s and fuel s rule: scan_once_scan_array_scan_object.induct)
  case (1 fuel s)
  show ?case
  proof
    assume len: "length s \<le> fuel"
    consider (string) "next_is (CHR 0x22) s"
      | (object) "\<not> next_is (CHR 0x22) s" "next_is (CHR ''{'') s"
      | (array) "\<not> next_is (CHR 0x22) s" "\<not> next_is (CHR ''{'') s" "next_is (CHR ''['') s"
      | (other) "\<not> next_is (CHR 0x22) s" "\<not> next_is (CHR ''{'') s" "\<not> next_is (CHR ''['') s"
      by blast
    then show "consumes (scan_once fuel s) s"
    proof cases
      case string
      with consumes_scanstring [OF string] show ?thesis
        by (auto simp: scan_once.simps [of fuel s] scan_once.simps [of "Suc m" s] consumes_def split: sum.splits)
    next
      case object
      from object(2) len obtain m where m: "fuel = Suc m"
        by (cases fuel; cases s) auto
      show ?thesis
      proof (cases "next_is (CHR ''}'') (skip_ws (tl s))")
        case True
        with object next_is_tl [OF object(2)] length_skip_ws [of "tl s"]
          next_is_tl [OF True]
        show ?thesis
          by (auto simp: scan_once.simps [of fuel s] scan_once.simps [of "Suc m" s] consumes_def)
      next
        case False
        from len m next_is_tl [OF object(2)] length_skip_ws [of "tl s"]
        have "length (skip_ws (tl s)) \<le> m" by simp
        with "1.IH"(1) [OF object False m]
        have "consumes (scan_object m (skip_ws (tl s))) (skip_ws (tl s))" by simp
        with object False m next_is_tl [OF object(2)] length_skip_ws [of "tl s"]
        show ?thesis
          by (auto simp: scan_once.simps [of fuel s] scan_once.simps [of "Suc m" s] consumes_def split: sum.splits)
      qed
    next
      case array
      from array(3) len obtain m where m: "fuel = Suc m"
        by (cases fuel; cases s) auto
      show ?thesis
      proof (cases "next_is (CHR '']'') (skip_ws (tl s))")
        case True
        with array next_is_tl [OF array(3)] length_skip_ws [of "tl s"]
          next_is_tl [OF True]
        show ?thesis
          by (auto simp: scan_once.simps [of fuel s] scan_once.simps [of "Suc m" s] consumes_def)
      next
        case False
        from len m next_is_tl [OF array(3)] length_skip_ws [of "tl s"]
        have "length (skip_ws (tl s)) \<le> m" by simp
        with "1.IH"(2) [OF array False m]
        have "consumes (scan_array m (skip_ws (tl s))) (skip_ws (tl s))" by simp
        with array False m next_is_tl [OF array(3)] length_skip_ws [of "tl s"]
        show ?thesis
          by (auto simp: scan_once.simps [of fuel s] scan_once.simps [of "Suc m" s] consumes_def split: sum.splits)
      qed
    next
      case other
      have "length (drop 4 s) < length s" if "prefix ''null'' s \<or> prefix ''true'' s"
        using that prefix_drop_shorter [of "''null''" s] prefix_drop_shorter [of "''true''" s]
        by auto
      moreover have "length (drop 5 s) < length s" if "prefix ''false'' s"
        using that prefix_drop_shorter [of "''false''" s] by auto
      ultimately show ?thesis
        using other scan_number_consumes [of s]
        by (auto simp: scan_once.simps [of fuel s] scan_once.simps [of "Suc m" s] consumes_def split: option.splits)
    qed
  qed
next
  case (2 fuel s)
  show ?case
  proof
    assume len: "length s \<le> fuel"
    with "2.IH"(1) have first: "consumes (scan_once fuel s) s" by simp
    show "consumes (scan_array fuel s) s"
    proof (cases "scan_once fuel s")
      case (Inl e)
      with first show ?thesis
        by (simp add: scan_array.simps [of fuel s] scan_array.simps [of "Suc m" s] consumes_def)
    next
      case (Inr b)
      obtain v y where b: "b = (v, y)" by (cases b)
      with Inr first have y: "length y < length s"
        by (simp add: consumes_def)
      show ?thesis
      proof (cases "next_is (CHR '']'') (skip_ws y)")
        case True
        with Inr b y next_is_tl [OF True] length_skip_ws [of y] show ?thesis
          by (auto simp: scan_array.simps [of fuel s] scan_array.simps [of "Suc m" s] consumes_def)
      next
        case False
        show ?thesis
        proof (cases "next_is (CHR '','') (skip_ws y)")
          case comma: True
          from y len obtain m where m: "fuel = Suc m"
            by (cases fuel) auto
          let ?next = "skip_ws (tl (skip_ws y))"
          from next_is_tl [OF comma] length_skip_ws [of y] length_skip_ws [of "tl (skip_ws y)"]
          have shorter: "length ?next < length y" by simp
          with y len m have "length ?next \<le> m" by simp
          with "2.IH"(2) [OF Inr b [symmetric] False comma m]
          have "consumes (scan_array m ?next) ?next" by simp
          with Inr b y False comma m shorter show ?thesis
            by (auto simp: scan_array.simps [of fuel s] scan_array.simps [of "Suc m" s] consumes_def split: sum.splits)
        next
          case False
          with Inr b \<open>\<not> next_is (CHR '']'') (skip_ws y)\<close> show ?thesis
            by (simp add: scan_array.simps [of fuel s] scan_array.simps [of "Suc m" s] consumes_def)
        qed
      qed
    qed
  qed
next
  case (3 fuel s)
  show ?case
  proof
    assume len: "length s \<le> fuel"
    show "consumes (scan_object fuel s) s"
    proof (cases "next_is (CHR 0x22) s")
      case False
      then show ?thesis
        by (simp add: scan_object.simps [of fuel s] scan_object.simps [of "Suc m" s] consumes_def)
    next
      case quote: True
      show ?thesis
      proof (cases "scanstring (tl s)")
        case (Inl e)
        with quote scanstring_consumes(1) [of "tl s"] show ?thesis
          by (simp add: scan_object.simps [of fuel s] scan_object.simps [of "Suc m" s] consumes_def)
      next
        case (Inr b)
        obtain key y where b: "b = (key, y)" by (cases b)
        with Inr consumes_scanstring [OF quote] have y: "length y < length s"
          by (simp add: consumes_def)
        show ?thesis
        proof (cases "next_is (CHR '':'') (skip_ws y)")
          case False
          with quote Inr b show ?thesis
            by (simp add: scan_object.simps [of fuel s] scan_object.simps [of "Suc m" s] consumes_def)
        next
          case colon: True
          let ?item = "skip_ws (tl (skip_ws y))"
          from next_is_tl [OF colon] length_skip_ws [of y] length_skip_ws [of "tl (skip_ws y)"]
          have item_shorter: "length ?item < length y" by simp
          with y len have "length ?item \<le> fuel" by simp
          with "3.IH"(1) [OF _ Inr b [symmetric]] quote colon
          have first: "consumes (scan_once fuel ?item) ?item" by simp
          show ?thesis
          proof (cases "scan_once fuel ?item")
            case (Inl e)
            with quote Inr b colon first show ?thesis
              by (simp add: scan_object.simps [of fuel s] scan_object.simps [of "Suc m" s] consumes_def)
          next
            case v: (Inr bv)
            obtain v z where bv: "bv = (v, z)" by (cases bv)
            with v first have z: "length z < length ?item"
              by (simp add: consumes_def)
            show ?thesis
            proof (cases "next_is (CHR ''}'') (skip_ws z)")
              case True
              with quote Inr b colon v bv z y item_shorter next_is_tl [OF True]
                length_skip_ws [of z]
              show ?thesis
                by (auto simp: scan_object.simps [of fuel s] scan_object.simps [of "Suc m" s] consumes_def)
            next
              case False
              show ?thesis
              proof (cases "next_is (CHR '','') (skip_ws z)")
                case comma: True
                from y len obtain m where m: "fuel = Suc m"
                  by (cases fuel) auto
                let ?next = "skip_ws (tl (skip_ws z))"
                from next_is_tl [OF comma] length_skip_ws [of z]
                  length_skip_ws [of "tl (skip_ws z)"]
                have shorter: "length ?next < length z" by simp
                with z item_shorter y len m have "length ?next \<le> m" by simp
                with "3.IH"(2) [OF _ Inr b [symmetric] _ v bv [symmetric] False comma m]
                  quote colon
                have "consumes (scan_object m ?next) ?next" by simp
                with quote Inr b colon v bv False comma m shorter z item_shorter y
                show ?thesis
                  by (auto simp: scan_object.simps [of fuel s] scan_object.simps [of "Suc m" s] consumes_def split: sum.splits)
              next
                case False
                with quote Inr b colon v bv \<open>\<not> next_is (CHR ''}'') (skip_ws z)\<close>
                show ?thesis
                  by (simp add: scan_object.simps [of fuel s] scan_object.simps [of "Suc m" s] consumes_def)
              qed
            qed
          qed
        qed
      qed
    qed
  qed
qed

lemma json_loads_fuel: "json_loads s \<noteq> Inl OutOfFuel"
  using scan_consumes(1) [of "skip_ws s" "length s"] length_skip_ws [of s]
  by (auto simp: json_loads_def consumes_def split: sum.splits if_splits)

section \<open>Facts about the JSON codec\<close>

lemma is_str_PStr: "is_str x \<Longrightarrow> \<exists>s. x = PStr s"
  by (cases x) auto

lemma is_details_shape:
  "is_details v \<Longrightarrow>
     \<exists>a p. v = PDict [(PStr ''address'', PStr a), (PStr ''phone_number'', PStr p)]"
  by (erule is_details.elims) (auto dest!: is_str_PStr)

lemma is_contact_contact: "is_contact c \<Longrightarrow> \<exists>n a p. c = contact n a p"
  by (erule is_contact.elims) (auto simp: contact_def dest!: is_str_PStr is_details_shape)

lemma contact_json_safe: "json_safe (contact n a p)"
  by (simp add: contact_def)

lemma canonical_json_safe: "canonical x \<Longrightarrow> json_safe x"
  by (auto simp: canonical_def list_all_iff contact_json_safe split: pyval.splits
      dest!: is_contact_contact)

text \<open>
  C7. For every canonical contact collection, decoding the JSON encoding gives the
  collection back. (\<open>json_dumps\<close> and \<open>json_loads\<close> are the models of the library
  functions; the codec only pairs their results with a length.)
\<close>

theorem json_roundtrip:
  assumes "canonical x"
  shows "roundtrip (json_encode json_dumps) (json_decode json_loads) x = Inr x"
proof -
  from json_loads_json_dumps [OF canonical_json_safe [OF assms]]
  obtain t where t: "json_dumps x = Inr t" "json_loads t = Inr x"
    by blast
  from assms obtain cs where "x = PList cs"
    by (auto simp: canonical_def split: pyval.splits)
  with t show ?thesis
    by (simp add: roundtrip_def json_encode_def json_decode_def)
qed

theorem json_roundtrip_witness:
  "canonical (PList [contact ''Alice'' ''1 Main St'' ''555-1111'',
                     contact ''Bob'' '''' ''555-2222''])
   \<and> roundtrip (json_encode json_dumps) (json_decode json_loads)
       (PList [contact ''Alice'' ''1 Main St'' ''555-1111'',
               contact ''Bob'' '''' ''555-2222'']) =
     Inr (PList [contact ''Alice'' ''1 Main St'' ''555-1111'',
                 contact ''Bob'' '''' ''555-2222''])"
proof -
  have c: "canonical (PList [contact ''Alice'' ''1 Main St'' ''555-1111'',
                     contact ''Bob'' '''' ''555-2222''])"
    by (simp add: canonical_def contact_def)
  from c json_roundtrip [OF c] show ?thesis
    by (rule conjI)
qed

section \<open>The empty collection\<close>

lemma json_roundtrip_empty:
  "roundtrip (json_encode json_dumps) (json_decode json_loads) (PList []) = Inr (PList [])"
  by code_simp

lemma html_table_roundtrip_empty:
  "roundtrip html_table_encode (html_table_decode lxml_parse) (PList []) = Inr (PList [])"
  by code_simp

lemma formatted_text_roundtrip_empty:
  "roundtrip formatted_text_encode formatted_text_decode (PList []) = Inr (PList [])"
  by code_simp

lemma yaml_roundtrip_empty:
  assumes "dump (PList []) = Inr yaml_string" and "safe_load yaml_string = Inr (PList [])"
  shows "roundtrip (yaml_encode dump) (yaml_decode safe_load) (PList []) = Inr (PList [])"
  using assms by (simp add: roundtrip_def yaml_encode_def yaml_decode_def)

lemma yaml_flow_empty:
  "yaml_flow_dump (PList []) = Inr ''[]\<newline>''"
  "yaml_flow_load ''[]\<newline>'' = Inr (PList [])"
  by code_simp+

text \<open>
  C8. Each of the four codecs decodes its encoding of the empty collection to the empty
  collection. The HTML codec reads the table that holds the header row only, whose
  cells are \<^verbatim>\<open>th\<close> cells; the text codec writes the empty text, whose only fragment is
  empty and is skipped. For YAML the statement holds with any library that reads back
  as the empty list the text it writes for the empty list.
\<close>

theorem empty_collection_roundtrip:
  assumes "dump (PList []) = Inr yaml_string" and "safe_load yaml_string = Inr (PList [])"
  shows "roundtrip (json_encode json_dumps) (json_decode json_loads) (PList []) = Inr (PList [])
    \<and> roundtrip (yaml_encode dump) (yaml_decode safe_load) (PList []) = Inr (PList [])
    \<and> roundtrip html_table_encode (html_table_decode lxml_parse) (PList []) = Inr (PList [])
    \<and> roundtrip formatted_text_encode formatted_text_decode (PList []) = Inr (PList [])"
  using json_roundtrip_empty yaml_roundtrip_empty [of dump yaml_string safe_load, OF assms]
    html_table_roundtrip_empty formatted_text_roundtrip_empty
  by simp

theorem empty_collection_roundtrip_witness:
  "yaml_flow_dump (PList []) = Inr ''[]\<newline>'' \<and> yaml_flow_load ''[]\<newline>'' = Inr (PList [])
    \<and> roundtrip (json_encode json_dumps) (json_decode json_loads) (PList []) = Inr (PList [])
    \<and> roundtrip (yaml_encode yaml_flow_dump) (yaml_decode yaml_flow_load) (PList [])
        = Inr (PList [])
    \<and> roundtrip html_table_encode (html_table_decode lxml_parse) (PList []) = Inr (PList [])
    \<and> roundtrip formatted_text_encode formatted_text_decode (PList []) = Inr (PList [])"
  using empty_collection_roundtrip [of yaml_flow_dump "''[]\<newline>''" yaml_flow_load,
      OF yaml_flow_empty] yaml_flow_empty
  by simp

section \<open>Facts about the YAML codec\<close>

text \<open>
  C3, as the code has it. \<^verbatim>\<open>yaml_decode\<close> has no check of the shape: when the parser
  returns a value, of any shape, the decoder returns this value and the length of the
  text; it fails when the parser fails, and only then.
\<close>

theorem yaml_decode_any_shape:
  "(safe_load yaml_string = Inr obj \<longrightarrow>
      yaml_decode safe_load yaml_string = Inr (obj, length yaml_string))
   \<and> (safe_load yaml_string = Inl e \<longrightarrow> yaml_decode safe_load yaml_string = Inl e)"
  by (simp add: yaml_decode_def)

lemma yaml_flow_load_scalar: "yaml_flow_load ''42'' = Inr (PInt 42)"
  by code_simp

theorem yaml_decode_any_shape_witness:
  "yaml_flow_load ''42'' = Inr (PInt 42) \<and> yaml_decode yaml_flow_load ''42'' = Inr (PInt 42, 2)"
  using yaml_decode_any_shape [of yaml_flow_load "''42''" "PInt 42"] yaml_flow_load_scalar
  by simp

text \<open>
  C3, as the claim states it, fails: a bare scalar and a top-level mapping are returned,
  not rejected.
\<close>

theorem yaml_decode_scalar_and_mapping:
  "yaml_decode yaml_flow_load ''42'' = Inr (PInt 42, 2)
   \<and> yaml_decode yaml_flow_load mapping_document = Inr (PDict [(PStr ''Bob'', PInt 42)], 11)"
  by code_simp

section \<open>Unknown formats\<close>





end
